theory Spec2Isabelle
  imports Main "HOL-Library.Word"
begin

section \<open>The connection handler of the proxy (proxy/handler.go)\<close>

text \<open>
  The handler owns one client connection. Its collaborators (codec, forwarder, registry,
  message pool, telemetry) live in other packages; every call the handler makes to one of
  them is recorded as an event of a trace, and what the collaborator answers is read from
  an environment record, one per cycle of the loop. Logging and the latency metric have
  no effect on any state below and are left out.
\<close>

subsection \<open>Data\<close>

text \<open>Go's \<open>error\<close> values; \<open>nil\<close> is \<open>None\<close> of \<open>error option\<close>.\<close>

datatype error = ErrNoSupportCacheType | EOF | ErrOther nat

text \<open>
  Modelled from the spec: \<open>types.CacheType\<close> is declared outside this file. The four
  supported kinds are the ones the switch of \<open>NewHandler\<close> names; every other value of
  the type is \<open>CacheTypeOther\<close>.
\<close>

datatype cache_type =
    CacheTypeMemcache
  | CacheTypeMemcacheBinary
  | CacheTypeRedis
  | CacheTypeRedisCluster
  | CacheTypeOther string

text \<open>The codec instance \<open>h.pc\<close>: which package's \<open>NewProxyConn\<close> built it.\<close>

datatype proxy_conn = MemcacheConn | McbinConn | RedisConn | RclstrConn

datatype forwarder_state = ForwarderStateOpening | ForwarderStateClosed

text \<open>
  Modelled from the spec: \<open>proto.Message\<close> is declared outside this file. A message has
  a request payload, a response payload (absent until filled), an end marker, its
  sub-dispatch attachments and the completion handle it reports to. Time is not modelled.
\<close>

record message =
  req :: "nat option"
  resp :: "nat option"
  ended :: bool
  subs :: nat
  wgAttached :: bool

text \<open>The fields of \<open>ClusterConfig\<close> that \<open>NewHandler\<close> reads.\<close>

record ClusterConfig =
  ccID :: "32 word"
  ccName :: string
  ccCacheType :: cache_type
  ccListenAddr :: string
  ccCloseWhenChange :: bool

record Handler =
  ClusterID :: "32 word"
  Name :: string
  CacheType :: cache_type
  ListenAddr :: string
  closeWhenChange :: bool
  conn :: int
  pc :: "proxy_conn option"
  closed :: "32 word"
  err :: "error option"

text \<open>Every call to a collaborator, in the order the handler makes it.\<close>

datatype event =
    EvGetMsgs nat
  | EvPutMsgs "message list"
  | EvGetForwarder "32 word" nat
  | EvState nat
  | EvForward nat "message list"
  | EvRelease nat
  | EvDecode
  | EvWait
  | EvEncode nat message
  | EvFlush
  | EvReset message
  | EvRemoveConnection "32 word" int
  | EvConnClose
  | EvConnIncr string
  | EvConnDecr string

text \<open>
  What the handler shares with the rest of the process: the proxy's connection counter
  \<open>p.conns\<close> (an int32), the proxy's registry of connections, the telemetry gauge of
  this cluster and its switch \<open>prom.On\<close>, the raw connection (how often it was closed),
  the number of forwarder references the registry has handed out, the codec's write
  buffer and what has reached the client, and the trace.
\<close>

record World =
  conns :: "32 word"
  registry :: "(32 word \<times> int) set"
  promOn :: bool
  promConns :: int
  connCloses :: nat
  acquired :: nat
  buffer :: "(nat option \<times> nat option) list"
  sent :: "(nat option \<times> nat option) list"
  trace :: "event list"

text \<open>
  What the collaborators answer during one cycle: the result of \<open>Decode\<close> (an error, or
  the requests read, in order), the forwarder's \<open>State()\<close>, the result of \<open>Forward\<close>,
  the backends' reply to a request and the number of sub-dispatches it was split into,
  the result of \<open>Encode\<close> for the i-th message, the result of \<open>Flush\<close>, and the message
  the pool hands out for the i-th slot of a new batch.
\<close>

record cycle_env =
  decode :: "error + nat list"
  fstate :: forwarder_state
  forward :: "error option"
  reply :: "nat \<Rightarrow> nat"
  fanout :: "nat \<Rightarrow> nat"
  encodeErr :: "nat \<Rightarrow> error option"
  flush :: "error option"
  poolMsgs :: "nat \<Rightarrow> message"

datatype status = Running | Returned

subsection \<open>Constants\<close>

definition handlerOpening :: "32 word" where
  "handlerOpening = 0"

definition handlerClosed :: "32 word" where
  "handlerClosed = 1"

definition concurrent :: int where
  "concurrent = 2"

definition maxConcurrent :: int where
  "maxConcurrent = 1024"

subsection \<open>Collaborators\<close>

definition emit :: "event list \<Rightarrow> World \<Rightarrow> World" where
  "emit evs w = w\<lparr>trace := trace w @ evs\<rparr>"

text \<open>
  Modelled from the spec: the operations of \<open>proto.Message\<close>. \<open>Reset\<close> clears the
  payloads and the end marker; \<open>MarkEnd\<close> sets the end marker; \<open>ResetSubs\<close> clears the
  sub-dispatch attachments; \<open>WithWaitGroup\<close> attaches the completion handle.
\<close>

definition Reset :: "message \<Rightarrow> message" where
  "Reset m = m\<lparr>req := None, resp := None, ended := False\<rparr>"

definition MarkEnd :: "message \<Rightarrow> message" where
  "MarkEnd m = m\<lparr>ended := True\<rparr>"

definition ResetSubs :: "message \<Rightarrow> message" where
  "ResetSubs m = m\<lparr>subs := 0\<rparr>"

definition WithWaitGroup :: "message \<Rightarrow> message" where
  "WithWaitGroup m = m\<lparr>wgAttached := True\<rparr>"

text \<open>
  Modelled from the spec: the message pool. \<open>GetMsgs n\<close> draws a batch of n messages,
  \<open>PutMsgs\<close> returns a batch as it is.
\<close>

definition GetMsgs :: "(nat \<Rightarrow> message) \<Rightarrow> nat \<Rightarrow> World \<Rightarrow> message list \<times> World" where
  "GetMsgs supply n w = (map supply [0..<n], emit [EvGetMsgs n] w)"

definition PutMsgs :: "message list \<Rightarrow> World \<Rightarrow> World" where
  "PutMsgs msgs w = emit [EvPutMsgs msgs] w"

text \<open>
  Modelled from the spec: the registry. \<open>GetForwarder\<close> hands out one more reference
  to the current forwarder of the cluster; references are numbered in the order they are
  handed out. \<open>RemoveConnection\<close> deregisters a connection.
\<close>

definition GetForwarder :: "32 word \<Rightarrow> World \<Rightarrow> nat \<times> World" where
  "GetForwarder cid w =
     (acquired w, emit [EvGetForwarder cid (acquired w)] (w\<lparr>acquired := Suc (acquired w)\<rparr>))"

definition RemoveConnection :: "32 word \<Rightarrow> int \<Rightarrow> World \<Rightarrow> World" where
  "RemoveConnection cid connID w =
     emit [EvRemoveConnection cid connID] (w\<lparr>registry := registry w - {(cid, connID)}\<rparr>)"

definition Release :: "nat \<Rightarrow> World \<Rightarrow> World" where
  "Release f w = emit [EvRelease f] w"

text \<open>
  Modelled from the spec: the codec. \<open>Decode\<close> fills the batch from its first slot on, in
  the order the requests were read, and returns the filled slots; it cannot fill more slots
  than the batch has, and a \<open>Decode\<close> that fails is taken to leave the batch as it is.
  \<open>Encode\<close> appends the response of a message to the write buffer; \<open>Flush\<close> pushes
  the write buffer to the client; either, when it fails, writes nothing.
\<close>

definition Decode :: "cycle_env \<Rightarrow> message list \<Rightarrow> error + message list" where
  "Decode env messages =
     (case decode env of
        Inl e \<Rightarrow> Inl e
      | Inr rs \<Rightarrow> Inr (map2 (\<lambda>r m. m\<lparr>req := Some r\<rparr>) rs messages))"

definition Encode :: "cycle_env \<Rightarrow> nat \<Rightarrow> nat \<Rightarrow> message \<Rightarrow> World \<Rightarrow> error option \<times> World" where
  "Encode env f i m w =
     (case encodeErr env i of
        Some e \<Rightarrow> (Some e, emit [EvEncode f m] w)
      | None \<Rightarrow> (None, emit [EvEncode f m] (w\<lparr>buffer := buffer w @ [(req m, resp m)]\<rparr>)))"

definition Flush :: "cycle_env \<Rightarrow> World \<Rightarrow> error option \<times> World" where
  "Flush env w =
     (case flush env of
        Some e \<Rightarrow> (Some e, emit [EvFlush] w)
      | None \<Rightarrow> (None, emit [EvFlush] (w\<lparr>sent := sent w @ buffer w, buffer := []\<rparr>)))"

text \<open>
  Modelled from the spec: the forwarder. \<open>Forward\<close> dispatches the batch; once \<open>wg.Wait()\<close>
  returns, every message of the batch carries the reply to its request.
\<close>

definition Wait :: "cycle_env \<Rightarrow> message \<Rightarrow> message" where
  "Wait env m =
     m\<lparr>resp := map_option (reply env) (req m),
       subs := (case req m of None \<Rightarrow> subs m | Some r \<Rightarrow> fanout env r)\<rparr>"

subsection \<open>The handler\<close>

text \<open>
  \<open>NewHandler\<close> builds the handler, picks the codec by the cache type and increments the
  connection gauge. On any other cache type it panics with \<open>ErrNoSupportCacheType\<close>:
  the result is that error, with the world as it was when the panic was raised.
\<close>

definition NewHandler :: "ClusterConfig \<Rightarrow> int \<Rightarrow> World \<Rightarrow> (error + Handler) \<times> World" where
  "NewHandler cc client w =
     (let h = \<lparr>ClusterID = ccID cc, Name = ccName cc, CacheType = ccCacheType cc,
                ListenAddr = ccListenAddr cc, closeWhenChange = ccCloseWhenChange cc,
                conn = client, pc = None, closed = 0, err = None\<rparr>
      in case CacheType h of
           CacheTypeMemcache \<Rightarrow>
             (Inr (h\<lparr>pc := Some MemcacheConn\<rparr>),
              emit [EvConnIncr (Name h)] (w\<lparr>promConns := promConns w + 1\<rparr>))
         | CacheTypeMemcacheBinary \<Rightarrow>
             (Inr (h\<lparr>pc := Some McbinConn\<rparr>),
              emit [EvConnIncr (Name h)] (w\<lparr>promConns := promConns w + 1\<rparr>))
         | CacheTypeRedis \<Rightarrow>
             (Inr (h\<lparr>pc := Some RedisConn\<rparr>),
              emit [EvConnIncr (Name h)] (w\<lparr>promConns := promConns w + 1\<rparr>))
         | CacheTypeRedisCluster \<Rightarrow>
             (Inr (h\<lparr>pc := Some RclstrConn\<rparr>),
              emit [EvConnIncr (Name h)] (w\<lparr>promConns := promConns w + 1\<rparr>))
         | CacheTypeOther _ \<Rightarrow> (Inl ErrNoSupportCacheType, w))"

text \<open>
  \<open>closeWithError\<close>: the compare-and-swap of \<open>h.closed\<close> from opening to closed, and, for
  the caller that wins it, the error recorded, the raw connection closed, \<open>p.conns\<close>
  decremented (an int32, wrapping) and, with \<open>prom.On\<close>, the gauge decremented.
\<close>

definition closeWithError :: "error option \<Rightarrow> Handler \<times> World \<Rightarrow> Handler \<times> World" where
  "closeWithError e hw =
     (case hw of (h, w) \<Rightarrow>
        if closed h = handlerOpening then
          (h\<lparr>closed := handlerClosed, err := e\<rparr>,
           (if promOn w
            then emit [EvConnClose, EvConnDecr (Name h)]
                   (w\<lparr>connCloses := Suc (connCloses w), conns := conns w - 1,
                      promConns := promConns w - 1\<rparr>)
            else emit [EvConnClose]
                   (w\<lparr>connCloses := Suc (connCloses w), conns := conns w - 1\<rparr>)))
        else (h, w))"

text \<open>\<open>deferHandle\<close>: deregister, return the batch to the pool, close.\<close>

definition deferHandle :: "message list \<Rightarrow> error option \<Rightarrow> Handler \<times> World \<Rightarrow> Handler \<times> World" where
  "deferHandle msgs e hw =
     (case hw of (h, w) \<Rightarrow>
        closeWithError e (h, PutMsgs msgs (RemoveConnection (ClusterID h) (conn h) w)))"

text \<open>
  \<open>allocMaxConcurrent\<close>; \<open>supply\<close> is what the pool hands out when a new batch is drawn.
  \<open>alloc\<close> stays 0, Go's zero value, when neither branch assigns it.
\<close>

definition allocMaxConcurrent ::
  "(nat \<Rightarrow> message) \<Rightarrow> message list \<Rightarrow> int \<Rightarrow> World \<Rightarrow> message list \<times> World" where
  "allocMaxConcurrent supply msgs lastCount w =
     (let lm = int (length msgs);
          alloc = (if lm = 0 then concurrent
                   else if lm < maxConcurrent \<and> lm = lastCount then lm * concurrent
                   else 0)
      in if alloc > 0
         then (case GetMsgs supply (nat alloc) (PutMsgs msgs w) of
                 (msgs', w') \<Rightarrow> (map WithWaitGroup msgs', w'))
         else (msgs, w))"

text \<open>
  The encode loop over \<open>msgs\<close>: it stops at the first message whose \<open>Encode\<close> fails and
  returns that error; the messages before it are marked ended and have lost their
  sub-dispatch attachments.
\<close>

fun encodeMsgs ::
  "cycle_env \<Rightarrow> nat \<Rightarrow> nat \<Rightarrow> message list \<Rightarrow> World \<Rightarrow> error option \<times> message list \<times> World" where
  "encodeMsgs env f i [] w = (None, [], w)"
| "encodeMsgs env f i (m # ms) w =
     (case Encode env f i m w of
        (Some e, w1) \<Rightarrow> (Some e, m # ms, w1)
      | (None, w1) \<Rightarrow>
          (case encodeMsgs env f (Suc i) ms w1 of
             (r, ms', w2) \<Rightarrow> (r, ResetSubs (MarkEnd m) # ms', w2)))"

text \<open>
  The body of the loop of \<open>handle\<close> from \<open>Forward\<close> on (steps 2 to 5). \<open>msgs\<close>, the
  slice \<open>Decode\<close> returned, shares its messages with the batch \<open>messages\<close>: the batch
  is \<open>msgs\<close> followed by \<open>rest\<close>, the slots that were not filled.
\<close>

definition dispatch ::
  "cycle_env \<Rightarrow> Handler \<Rightarrow> message list \<Rightarrow> message list \<Rightarrow> nat \<Rightarrow> World
     \<Rightarrow> status \<times> Handler \<times> message list \<times> nat \<times> World" where
  "dispatch env h msgs rest forwarder w =
     (case forward env of
        Some e \<Rightarrow>
          (case deferHandle (msgs @ rest) (Some e) (h, emit [EvForward forwarder msgs] w) of
             (h', w') \<Rightarrow> (Returned, h', msgs @ rest, forwarder, Release forwarder w'))
      | None \<Rightarrow>
          (case encodeMsgs env forwarder 0 (map (Wait env) msgs)
                  (emit [EvForward forwarder msgs, EvWait] w) of
             (Some e, msgs', w1) \<Rightarrow>
               (case deferHandle (msgs' @ rest) (Some e) (h, snd (Flush env w1)) of
                  (h', w') \<Rightarrow> (Returned, h', msgs' @ rest, forwarder, Release forwarder w'))
           | (None, msgs', w1) \<Rightarrow>
               (case Flush env w1 of
                  (Some e, w2) \<Rightarrow>
                    (case deferHandle (msgs' @ rest) (Some e) (h, w2) of
                       (h', w') \<Rightarrow>
                         (Returned, h', msgs' @ rest, forwarder, Release forwarder w'))
                | (None, w2) \<Rightarrow>
                    (case allocMaxConcurrent (poolMsgs env)
                            (map Reset msgs' @ rest) (int (length msgs'))
                            (emit (map EvReset msgs') w2) of
                       (messages', w3) \<Rightarrow> (Running, h, messages', forwarder, w3)))))"

text \<open>
  One pass through the body of the loop of \<open>handle\<close>. \<open>messages\<close> is the batch and
  \<open>forwarder\<close> the reference held on entry. After a successful \<open>Decode\<close> the variable
  \<open>err\<close> of \<open>handle\<close> is \<open>nil\<close>, and that is what the topology-closed path hands to
  \<open>deferHandle\<close>.
\<close>

definition cycle ::
  "cycle_env \<Rightarrow> Handler \<Rightarrow> message list \<Rightarrow> nat \<Rightarrow> World
     \<Rightarrow> status \<times> Handler \<times> message list \<times> nat \<times> World" where
  "cycle env h messages forwarder w =
     (case Decode env messages of
        Inl e \<Rightarrow>
          (case deferHandle messages (Some e) (h, emit [EvDecode] w) of
             (h', w') \<Rightarrow> (Returned, h', messages, forwarder, Release forwarder w'))
      | Inr msgs \<Rightarrow>
          (let rest = drop (length msgs) messages;
               w1 = emit [EvDecode, EvState forwarder] w
           in if fstate env = ForwarderStateClosed then
                (let w2 = Release forwarder w1
                 in if closeWhenChange h then
                      (case deferHandle (msgs @ rest) None (h, w2) of
                         (h', w') \<Rightarrow> (Returned, h', msgs @ rest, forwarder, w'))
                    else
                      (case GetForwarder (ClusterID h) w2 of
                         (fwd, w3) \<Rightarrow> dispatch env h msgs rest fwd w3))
              else dispatch env h msgs rest forwarder w1))"

text \<open>
  The loop of \<open>handle\<close> (which \<open>Handle\<close> starts as a goroutine), one environment
  per cycle. When the environments run out the handler is still running: it is blocked
  in \<open>Decode\<close>, waiting for the client.
\<close>

fun handleLoop ::
  "cycle_env list \<Rightarrow> Handler \<Rightarrow> message list \<Rightarrow> nat \<Rightarrow> World
     \<Rightarrow> status \<times> Handler \<times> message list \<times> nat \<times> World" where
  "handleLoop [] h messages forwarder w = (Running, h, messages, forwarder, w)"
| "handleLoop (env # envs) h messages forwarder w =
     (case cycle env h messages forwarder w of
        (Returned, r) \<Rightarrow> (Returned, r)
      | (Running, h', messages', forwarder', w') \<Rightarrow> handleLoop envs h' messages' forwarder' w')"

definition handle ::
  "(nat \<Rightarrow> message) \<Rightarrow> cycle_env list \<Rightarrow> Handler \<Rightarrow> World
     \<Rightarrow> status \<times> Handler \<times> message list \<times> nat \<times> World" where
  "handle supply envs h w =
     (case allocMaxConcurrent supply [] 0 w of
        (messages, w1) \<Rightarrow>
          (case GetForwarder (ClusterID h) w1 of
             (forwarder, w2) \<Rightarrow> handleLoop envs h messages forwarder w2))"

subsection \<open>Concurrent callers of \<open>closeWithError\<close>\<close>

text \<open>
  The body of \<open>closeWithError\<close>, statement by statement, for callers that run at the
  same time: the compare-and-swap on \<open>h.closed\<close> is one atomic step; the caller that
  wins it goes on to set \<open>h.err\<close>, close the raw connection, decrement \<open>p.conns\<close> and,
  with \<open>prom.On\<close>, the gauge; a caller that loses it is done.
\<close>

datatype close_pc = AtCAS | AtSetErr | AtConnClose | AtDecr | AtProm | Finished

definition closeStep :: "error option \<Rightarrow> close_pc \<Rightarrow> Handler \<times> World \<Rightarrow> close_pc \<times> Handler \<times> World" where
  "closeStep e p hw =
     (case hw of (h, w) \<Rightarrow>
        (case p of
           AtCAS \<Rightarrow>
             if closed h = handlerOpening then (AtSetErr, h\<lparr>closed := handlerClosed\<rparr>, w)
             else (Finished, h, w)
         | AtSetErr \<Rightarrow> (AtConnClose, h\<lparr>err := e\<rparr>, w)
         | AtConnClose \<Rightarrow> (AtDecr, h, emit [EvConnClose] (w\<lparr>connCloses := Suc (connCloses w)\<rparr>))
         | AtDecr \<Rightarrow> (AtProm, h, w\<lparr>conns := conns w - 1\<rparr>)
         | AtProm \<Rightarrow>
             (Finished, h,
              if promOn w then emit [EvConnDecr (Name h)] (w\<lparr>promConns := promConns w - 1\<rparr>)
              else w)
         | Finished \<Rightarrow> (Finished, h, w)))"

text \<open>A caller of \<open>closeWithError\<close>: where it is, and the error it was called with.\<close>

type_synonym closer = "close_pc \<times> error option"

text \<open>
  A schedule names, step by step, the caller that runs next; a step of a caller that is
  done, or of one that does not exist, changes nothing.
\<close>

fun runSched :: "nat list \<Rightarrow> closer list \<Rightarrow> Handler \<times> World \<Rightarrow> closer list \<times> Handler \<times> World" where
  "runSched [] ts hw = (ts, hw)"
| "runSched (i # is) ts hw =
     (if i < length ts
      then (case closeStep (snd (ts ! i)) (fst (ts ! i)) hw of
              (p, hw') \<Rightarrow> runSched is (ts[i := (p, snd (ts ! i))]) hw')
      else runSched is ts hw)"

text \<open>
  Where handler and world are once the caller that won the compare-and-swap, called with
  \<open>e\<close>, has arrived at a given statement.
\<close>

definition progress :: "error option \<Rightarrow> close_pc \<Rightarrow> Handler \<times> World \<Rightarrow> Handler \<times> World" where
  "progress e p hw =
     (case hw of (h, w) \<Rightarrow>
        (case p of
           AtCAS \<Rightarrow> (h, w)
         | AtSetErr \<Rightarrow> (h\<lparr>closed := handlerClosed\<rparr>, w)
         | AtConnClose \<Rightarrow> (h\<lparr>closed := handlerClosed, err := e\<rparr>, w)
         | AtDecr \<Rightarrow>
             (h\<lparr>closed := handlerClosed, err := e\<rparr>,
              emit [EvConnClose] (w\<lparr>connCloses := Suc (connCloses w)\<rparr>))
         | AtProm \<Rightarrow>
             (h\<lparr>closed := handlerClosed, err := e\<rparr>,
              emit [EvConnClose] (w\<lparr>connCloses := Suc (connCloses w), conns := conns w - 1\<rparr>))
         | Finished \<Rightarrow> closeWithError e (h, w)))"

text \<open>
  The state of a run after caller \<open>j\<close> has won the compare-and-swap: the others have
  not started yet or are done, and nothing but the progress of \<open>j\<close> has changed handler
  and world.
\<close>

definition won :: "error option list \<Rightarrow> Handler \<times> World \<Rightarrow> nat \<Rightarrow> closer list \<Rightarrow> Handler \<times> World \<Rightarrow> bool" where
  "won es hw0 j ts hw =
     (j < length es \<and> length ts = length es
      \<and> (\<forall>i < length es. snd (ts ! i) = es ! i)
      \<and> fst (ts ! j) \<noteq> AtCAS
      \<and> hw = progress (es ! j) (fst (ts ! j)) hw0
      \<and> (\<forall>i < length es. i \<noteq> j \<longrightarrow> fst (ts ! i) = AtCAS \<or> fst (ts ! i) = Finished))"

subsection \<open>Reading a result\<close>

text \<open>
  \<open>handle\<close> and \<open>cycle\<close> return the status, the handler, the batch, the forwarder reference
  held last and the world.
\<close>

type_synonym result = "status \<times> Handler \<times> message list \<times> nat \<times> World"

definition statusOf :: "result \<Rightarrow> status" where
  "statusOf r = fst r"

definition handlerOf :: "result \<Rightarrow> Handler" where
  "handlerOf r = fst (snd r)"

definition batchOf :: "result \<Rightarrow> message list" where
  "batchOf r = fst (snd (snd r))"

definition forwarderOf :: "result \<Rightarrow> nat" where
  "forwarderOf r = fst (snd (snd (snd r)))"

definition worldOf :: "result \<Rightarrow> World" where
  "worldOf r = snd (snd (snd (snd r)))"

text \<open>The events emitted between two worlds of one run.\<close>

definition since :: "World \<Rightarrow> World \<Rightarrow> event list" where
  "since w w' = drop (length (trace w)) (trace w')"

fun isForward :: "event \<Rightarrow> bool" where
  "isForward (EvForward f msgs) = True"
| "isForward ev = False"

fun isReset :: "event \<Rightarrow> bool" where
  "isReset (EvReset m) = True"
| "isReset ev = False"

fun isPutMsgs :: "event \<Rightarrow> bool" where
  "isPutMsgs (EvPutMsgs msgs) = True"
| "isPutMsgs ev = False"

text \<open>The calls that write to the client: \<open>Encode\<close> and \<open>Flush\<close>.\<close>

fun isWrite :: "event \<Rightarrow> bool" where
  "isWrite (EvEncode f m) = True"
| "isWrite EvFlush = True"
| "isWrite ev = False"

text \<open>The events about forwarder references: acquisitions and releases.\<close>

fun isRef :: "event \<Rightarrow> bool" where
  "isRef (EvGetForwarder cid f) = True"
| "isRef (EvRelease f) = True"
| "isRef ev = False"

definition refEvents :: "event list \<Rightarrow> event list" where
  "refEvents evs = filter isRef evs"

text \<open>Reference \<open>i\<close> acquired and then released, for each \<open>i\<close> of a list.\<close>

definition refPairs :: "32 word \<Rightarrow> nat list \<Rightarrow> event list" where
  "refPairs cid is = concat (map (\<lambda>i. [EvGetForwarder cid i, EvRelease i]) is)"


text \<open>
  Of \<open>k\<close> messages, the first of which is the \<open>i\<close>-th of its batch, how many are encoded
  before \<open>Encode\<close> fails for the first time.
\<close>

definition encoded :: "cycle_env \<Rightarrow> nat \<Rightarrow> nat \<Rightarrow> nat" where
  "encoded env i k = length (takeWhile (\<lambda>j. encodeErr env j = None) [i..<i + k])"

text \<open>What \<open>closeWithError\<close> emits: nothing unless the handler is still opening.\<close>

definition closeEvents :: "Handler \<Rightarrow> World \<Rightarrow> event list" where
  "closeEvents h w =
     (if closed h = handlerOpening
      then (if promOn w then [EvConnClose, EvConnDecr (Name h)] else [EvConnClose])
      else [])"

text \<open>
  The three statements every error path of \<open>handle\<close> ends with:
  \<open>h.deferHandle(messages, err); forwarder.Release(); return\<close>.
\<close>

definition exitWith :: "message list \<Rightarrow> error option \<Rightarrow> nat \<Rightarrow> Handler \<Rightarrow> World \<Rightarrow> result" where
  "exitWith batch e f h w =
     (case deferHandle batch e (h, w) of
        (h', w') \<Rightarrow> (Returned, h', batch, f, Release f w'))"

text \<open>The decoded messages and the world once the encode loop has ended.\<close>

definition encodedBatch :: "cycle_env \<Rightarrow> message list \<Rightarrow> message list" where
  "encodedBatch env msgs =
     map (\<lambda>m. ResetSubs (MarkEnd m)) (take (encoded env 0 (length msgs)) (map (Wait env) msgs))
     @ drop (encoded env 0 (length msgs)) (map (Wait env) msgs)"

definition afterEncode :: "cycle_env \<Rightarrow> nat \<Rightarrow> message list \<Rightarrow> World \<Rightarrow> World" where
  "afterEncode env f msgs w =
     w\<lparr>buffer := buffer w @ map (\<lambda>m. (req m, resp m))
                            (take (encoded env 0 (length msgs)) (map (Wait env) msgs)),
       trace := trace w @ [EvForward f msgs, EvWait]
                  @ map (EvEncode f) (take (Suc (encoded env 0 (length msgs))) (map (Wait env) msgs))\<rparr>"

text \<open>What the allocator emits: nothing unless it draws a new batch.\<close>

definition allocEvents :: "message list \<Rightarrow> int \<Rightarrow> event list" where
  "allocEvents msgs c =
     (if msgs = [] \<or> (int (length msgs) < maxConcurrent \<and> int (length msgs) = c)
      then [EvPutMsgs msgs, EvGetMsgs (if msgs = [] then 2 else 2 * length msgs)]
      else [])"

text \<open>A list ends with another one.\<close>

definition endsWith :: "'a list \<Rightarrow> 'a list \<Rightarrow> bool" where
  "endsWith xs ys = (length ys \<le> length xs \<and> drop (length xs - length ys) xs = ys)"

text \<open>
  What an error path leaves behind, for a cycle that started with handler \<open>h\<close> in world
  \<open>w\<close> and ended in \<open>r\<close>: \<open>handle\<close> has returned; the last calls it made were
  \<open>RemoveConnection\<close>, \<open>PutMsgs\<close> on the batch, the calls of \<open>closeWithError\<close> and
  \<open>Release\<close> on the forwarder; the batch went to the pool once; and a handler that was
  still opening is closed with error \<open>e\<close>, its raw connection closed and the proxy's
  counter one less.
\<close>

definition failureExit :: "error \<Rightarrow> Handler \<Rightarrow> World \<Rightarrow> result \<Rightarrow> bool" where
  "failureExit e h w r =
     (statusOf r = Returned
      \<and> endsWith (since w (worldOf r))
            ([EvRemoveConnection (ClusterID h) (conn h), EvPutMsgs (batchOf r)]
             @ closeEvents h w @ [EvRelease (forwarderOf r)])
      \<and> filter isPutMsgs (since w (worldOf r)) = [EvPutMsgs (batchOf r)]
      \<and> (closed h = handlerOpening \<longrightarrow>
            closed (handlerOf r) = handlerClosed \<and> err (handlerOf r) = Some e
            \<and> connCloses (worldOf r) = Suc (connCloses w)
            \<and> conns (worldOf r) = conns w - 1))"

subsection \<open>A concrete connection\<close>

definition exMsg :: message where
  "exMsg = \<lparr>req = None, resp = None, ended = False, subs = 0, wgAttached = False\<rparr>"

definition exStale :: message where
  "exStale = \<lparr>req = Some 9, resp = Some 99, ended = True, subs = 0, wgAttached = False\<rparr>"

definition exSupply :: "nat \<Rightarrow> message" where
  "exSupply i = exMsg"

definition exWorld :: World where
  "exWorld = \<lparr>conns = 5, registry = {(7, 42)}, promOn = True, promConns = 3, connCloses = 0,
               acquired = 0, buffer = [], sent = [], trace = []\<rparr>"

definition exConfig :: ClusterConfig where
  "exConfig = \<lparr>ccID = 7, ccName = ''test'', ccCacheType = CacheTypeRedis,
                ccListenAddr = ''0.0.0.0:26379'', ccCloseWhenChange = False\<rparr>"

definition exHandler :: Handler where
  "exHandler = \<lparr>ClusterID = 7, Name = ''test'', CacheType = CacheTypeRedis,
                 ListenAddr = ''0.0.0.0:26379'', closeWhenChange = False, conn = 42,
                 pc = Some RedisConn, closed = 0, err = None\<rparr>"

text \<open>A pool whose second message still carries what an error path left in it.\<close>

definition exStaleSupply :: "nat \<Rightarrow> message" where
  "exStaleSupply i = (if i = 1 then exStale else exMsg)"

text \<open>A cycle in which nothing fails: the client sent \<open>rs\<close>, the forwarder is open.\<close>

definition exEnv :: "nat list \<Rightarrow> cycle_env" where
  "exEnv rs = \<lparr>decode = Inr rs, fstate = ForwarderStateOpening, forward = None,
                reply = (\<lambda>r. r + 100), fanout = (\<lambda>r. 1), encodeErr = (\<lambda>i. None),
                flush = None, poolMsgs = exSupply\<rparr>"

section \<open>Basic facts\<close>

lemmas proj_defs = statusOf_def handlerOf_def batchOf_def forwarderOf_def worldOf_def

subsection \<open>The encode loop in closed form\<close>

lemma encoded_0 [simp]: "encoded env i 0 = 0"
  by (simp add: encoded_def)

lemma encoded_Suc:
  "encoded env i (Suc k) = (if encodeErr env i = None then Suc (encoded env (Suc i) k) else 0)"
proof -
  have "[i..<i + Suc k] = i # [Suc i..<Suc i + k]"
    using upt_conv_Cons [of i "i + Suc k"] by simp
  then show ?thesis
    unfolding encoded_def by simp
qed

lemma encoded_le: "encoded env i k \<le> k"
proof (induction k arbitrary: i)
  case 0
  then show ?case by simp
next
  case (Suc k)
  then show ?case
    using Suc.IH [of "Suc i"] by (simp add: encoded_Suc)
qed

lemma encoded_err: "encoded env i k < k \<Longrightarrow> encodeErr env (i + encoded env i k) \<noteq> None"
proof (induction k arbitrary: i)
  case 0
  then show ?case by simp
next
  case (Suc k)
  then show ?case
    using Suc.IH [of "Suc i"] by (cases "encodeErr env i") (simp_all add: encoded_Suc)
qed

lemma encoded_ok: "j < encoded env i k \<Longrightarrow> encodeErr env (i + j) = None"
proof (induction k arbitrary: i j)
  case 0
  then show ?case by simp
next
  case (Suc k)
  show ?case
  proof (cases j)
    case 0
    with Suc.prems show ?thesis
      by (simp add: encoded_Suc split: if_splits)
  next
    case (Suc j')
    with Suc.prems Suc.IH [of j' "Suc i"] show ?thesis
      by (simp add: encoded_Suc split: if_splits)
  qed
qed

lemma encoded_all: "(\<forall>j < k. encodeErr env (i + j) = None) \<Longrightarrow> encoded env i k = k"
  using encoded_err [of env i k] encoded_le [of env i k]
  by (metis le_neq_implies_less)

lemma encodeMsgs_eq:
  "encodeMsgs env f i ms w =
     (let n = encoded env i (length ms)
      in (if n < length ms then encodeErr env (i + n) else None,
          map (\<lambda>m. ResetSubs (MarkEnd m)) (take n ms) @ drop n ms,
          w\<lparr>buffer := buffer w @ map (\<lambda>m. (req m, resp m)) (take n ms),
            trace := trace w @ map (EvEncode f) (take (Suc n) ms)\<rparr>))"
proof (induction ms arbitrary: i w)
  case Nil
  then show ?case by simp
next
  case (Cons m ms)
  show ?case
  proof (cases "encodeErr env i")
    case None
    then show ?thesis
      by (simp add: Cons.IH Encode_def emit_def encoded_Suc Let_def)
  next
    case (Some e)
    then show ?thesis
      by (simp add: Encode_def emit_def encoded_Suc Let_def)
  qed
qed

lemma encodeMsgs_Wait:
  "encodeMsgs env f 0 (map (Wait env) msgs) (emit [EvForward f msgs, EvWait] w) =
     (if encoded env 0 (length msgs) < length msgs
      then encodeErr env (encoded env 0 (length msgs)) else None,
      encodedBatch env msgs, afterEncode env f msgs w)"
  by (simp add: encodeMsgs_eq Let_def encodedBatch_def afterEncode_def emit_def)

subsection \<open>The four ways through the dispatch\<close>

lemma dispatch_forward_err:
  "forward env = Some e \<Longrightarrow>
   dispatch env h msgs rest f w =
     exitWith (msgs @ rest) (Some e) f h (emit [EvForward f msgs] w)"
  by (simp add: dispatch_def exitWith_def)

lemma dispatch_encode_err:
  assumes "forward env = None" and "encoded env 0 (length msgs) < length msgs"
  shows "dispatch env h msgs rest f w =
     exitWith (encodedBatch env msgs @ rest) (encodeErr env (encoded env 0 (length msgs))) f h
       (snd (Flush env (afterEncode env f msgs w)))"
proof -
  obtain e where "encodeErr env (encoded env 0 (length msgs)) = Some e"
    using encoded_err [OF assms(2)] by auto
  then show ?thesis
    using assms by (simp add: dispatch_def encodeMsgs_Wait exitWith_def)
qed

lemma dispatch_flush_err:
  assumes "forward env = None" and "encoded env 0 (length msgs) = length msgs"
    and "flush env = Some e"
  shows "dispatch env h msgs rest f w =
     exitWith (encodedBatch env msgs @ rest) (Some e) f h
       (emit [EvFlush] (afterEncode env f msgs w))"
  using assms by (simp add: dispatch_def encodeMsgs_Wait exitWith_def Flush_def)

lemma dispatch_ok:
  assumes "forward env = None" and "encoded env 0 (length msgs) = length msgs"
    and "flush env = None"
  shows "dispatch env h msgs rest f w =
     (case allocMaxConcurrent (poolMsgs env) (map Reset (encodedBatch env msgs) @ rest)
             (int (length msgs))
             (emit (map EvReset (encodedBatch env msgs)) (snd (Flush env (afterEncode env f msgs w)))) of
        (messages', w') \<Rightarrow> (Running, h, messages', f, w'))"
  using assms by (simp add: dispatch_def encodeMsgs_Wait Flush_def encodedBatch_def)

lemma dispatch_cases [case_names forward_err encode_err flush_err ok]:
  obtains e where "forward env = Some e"
  | "forward env = None" and "encoded env 0 (length msgs) < length msgs"
  | e where "forward env = None" and "encoded env 0 (length msgs) = length msgs"
      and "flush env = Some e"
  | "forward env = None" and "encoded env 0 (length msgs) = length msgs"
      and "flush env = None"
  using encoded_le [of env 0 "length msgs"]
  by (cases "forward env"; cases "flush env"; cases "encoded env 0 (length msgs) < length msgs") auto

lemma length_encodedBatch [simp]: "length (encodedBatch env msgs) = length msgs"
  by (simp add: encodedBatch_def)

lemma encodedBatch_all:
  "encoded env 0 (length msgs) = length msgs \<Longrightarrow>
   encodedBatch env msgs = map (\<lambda>m. ResetSubs (MarkEnd (Wait env m))) msgs"
  by (simp add: encodedBatch_def)

subsection \<open>Closing\<close>

lemma closeWithError_eq:
  "closeWithError e (h, w) =
     (if closed h = handlerOpening
      then (h\<lparr>closed := handlerClosed, err := e\<rparr>,
            w\<lparr>connCloses := Suc (connCloses w), conns := conns w - 1,
              promConns := (if promOn w then promConns w - 1 else promConns w),
              trace := trace w @ closeEvents h w\<rparr>)
      else (h, w))"
  by (simp add: closeWithError_def closeEvents_def emit_def)

lemma deferHandle_eq:
  "deferHandle msgs e (h, w) =
     (if closed h = handlerOpening
      then (h\<lparr>closed := handlerClosed, err := e\<rparr>,
            w\<lparr>registry := registry w - {(ClusterID h, conn h)},
              connCloses := Suc (connCloses w), conns := conns w - 1,
              promConns := (if promOn w then promConns w - 1 else promConns w),
              trace := trace w @ [EvRemoveConnection (ClusterID h) (conn h), EvPutMsgs msgs]
                         @ closeEvents h w\<rparr>)
      else (h, w\<lparr>registry := registry w - {(ClusterID h, conn h)},
                 trace := trace w @ [EvRemoveConnection (ClusterID h) (conn h), EvPutMsgs msgs]\<rparr>))"
  by (simp add: deferHandle_def closeWithError_def closeEvents_def emit_def PutMsgs_def
        RemoveConnection_def)

lemma statusOf_exitWith [simp]: "statusOf (exitWith b e f h w) = Returned"
  by (simp add: exitWith_def statusOf_def split: prod.splits)

lemma batchOf_exitWith [simp]: "batchOf (exitWith b e f h w) = b"
  by (simp add: exitWith_def batchOf_def split: prod.splits)

lemma forwarderOf_exitWith [simp]: "forwarderOf (exitWith b e f h w) = f"
  by (simp add: exitWith_def forwarderOf_def split: prod.splits)

lemma handlerOf_exitWith:
  "handlerOf (exitWith b e f h w) =
     (if closed h = handlerOpening then h\<lparr>closed := handlerClosed, err := e\<rparr> else h)"
  by (simp add: exitWith_def handlerOf_def deferHandle_eq)

lemma worldOf_exitWith:
  "worldOf (exitWith b e f h w) =
     (if closed h = handlerOpening
      then w\<lparr>registry := registry w - {(ClusterID h, conn h)},
              connCloses := Suc (connCloses w), conns := conns w - 1,
              promConns := (if promOn w then promConns w - 1 else promConns w),
              trace := trace w @ [EvRemoveConnection (ClusterID h) (conn h), EvPutMsgs b]
                         @ closeEvents h w @ [EvRelease f]\<rparr>
      else w\<lparr>registry := registry w - {(ClusterID h, conn h)},
              trace := trace w @ [EvRemoveConnection (ClusterID h) (conn h), EvPutMsgs b,
                         EvRelease f]\<rparr>)"
  by (simp add: exitWith_def worldOf_def deferHandle_eq Release_def emit_def)

lemma trace_exitWith:
  "trace (worldOf (exitWith b e f h w)) =
     trace w @ [EvRemoveConnection (ClusterID h) (conn h), EvPutMsgs b]
       @ closeEvents h w @ [EvRelease f]"
  by (simp add: worldOf_exitWith closeEvents_def)

subsection \<open>The ways through a cycle\<close>

lemma cycle_decode_err:
  "Decode env messages = Inl e \<Longrightarrow>
   cycle env h messages f w = exitWith messages (Some e) f h (emit [EvDecode] w)"
  by (simp add: cycle_def exitWith_def)

lemma cycle_closed_policy:
  "Decode env messages = Inr msgs \<Longrightarrow> fstate env = ForwarderStateClosed \<Longrightarrow> closeWhenChange h \<Longrightarrow>
   cycle env h messages f w =
     (case deferHandle (msgs @ drop (length msgs) messages) None
             (h, emit [EvDecode, EvState f, EvRelease f] w) of
        (h', w') \<Rightarrow> (Returned, h', msgs @ drop (length msgs) messages, f, w'))"
  by (simp add: cycle_def Let_def Release_def emit_def)

lemma cycle_closed_reacquire:
  "Decode env messages = Inr msgs \<Longrightarrow> fstate env = ForwarderStateClosed \<Longrightarrow> \<not> closeWhenChange h \<Longrightarrow>
   cycle env h messages f w =
     dispatch env h msgs (drop (length msgs) messages) (acquired w)
       (emit [EvDecode, EvState f, EvRelease f, EvGetForwarder (ClusterID h) (acquired w)]
          (w\<lparr>acquired := Suc (acquired w)\<rparr>))"
  by (simp add: cycle_def Let_def Release_def emit_def GetForwarder_def)

lemma cycle_open:
  "Decode env messages = Inr msgs \<Longrightarrow> fstate env \<noteq> ForwarderStateClosed \<Longrightarrow>
   cycle env h messages f w =
     dispatch env h msgs (drop (length msgs) messages) f (emit [EvDecode, EvState f] w)"
  by (simp add: cycle_def Let_def)

subsection \<open>The allocator\<close>








subsection \<open>Events of one kind\<close>

lemma filter_isForward_Encode [simp]: "filter isForward (map (EvEncode f) ms) = []"
  by (induction ms) auto

lemma filter_isForward_Reset [simp]: "filter isForward (map EvReset ms) = []"
  by (induction ms) auto

lemma filter_isForward_closeEvents [simp]: "filter isForward (closeEvents h w) = []"
  by (simp add: closeEvents_def)

lemma allocMaxConcurrent_eq:
  "allocMaxConcurrent supply msgs c w =
     (if msgs = [] \<or> (int (length msgs) < maxConcurrent \<and> int (length msgs) = c)
      then (map (\<lambda>i. WithWaitGroup (supply i)) [0..<(if msgs = [] then 2 else 2 * length msgs)],
            w\<lparr>trace := trace w @ [EvPutMsgs msgs,
                  EvGetMsgs (if msgs = [] then 2 else 2 * length msgs)]\<rparr>)
      else (msgs, w))"
  by (auto simp: allocMaxConcurrent_def Let_def GetMsgs_def PutMsgs_def emit_def concurrent_def
        maxConcurrent_def nat_mult_distrib mult.commute comp_def)

lemma trace_allocMaxConcurrent:
  "trace (snd (allocMaxConcurrent supply msgs c w)) =
     trace w @ (if msgs = [] \<or> (int (length msgs) < maxConcurrent \<and> int (length msgs) = c)
                then [EvPutMsgs msgs, EvGetMsgs (if msgs = [] then 2 else 2 * length msgs)]
                else [])"
  by (simp add: allocMaxConcurrent_eq)

lemma filter_isPutMsgs_Encode [simp]: "filter isPutMsgs (map (EvEncode f) ms) = []"
  by (induction ms) auto

lemma filter_isPutMsgs_closeEvents [simp]: "filter isPutMsgs (closeEvents h w) = []"
  by (simp add: closeEvents_def)

lemma closeEvents_cong: "promOn w1 = promOn w \<Longrightarrow> closeEvents h w1 = closeEvents h w"
  by (simp add: closeEvents_def)

lemma endsWith_append [simp]: "endsWith (xs @ ys) ys"
  by (simp add: endsWith_def)

subsection \<open>Error exits\<close>

lemma failureExit_exitWith:
  assumes "trace w1 = trace w @ pre" and "filter isPutMsgs pre = []"
    and "connCloses w1 = connCloses w" and "conns w1 = conns w" and "promOn w1 = promOn w"
  shows "failureExit e h w (exitWith b (Some e) f h w1)"
proof -
  have t: "since w (worldOf (exitWith b (Some e) f h w1)) =
             pre @ ([EvRemoveConnection (ClusterID h) (conn h), EvPutMsgs b]
                    @ closeEvents h w @ [EvRelease f])"
    using assms(1) closeEvents_cong [OF assms(5)]
    by (simp add: since_def trace_exitWith)
  show ?thesis
    unfolding failureExit_def t
    using assms(2-5)
    by (simp add: handlerOf_exitWith worldOf_exitWith endsWith_append)
qed

lemma handleLoop_Returned:
  "statusOf (cycle env h messages f w) = Returned \<Longrightarrow>
   handleLoop (env # envs) h messages f w = cycle env h messages f w"
  by (cases "cycle env h messages f w") (simp add: statusOf_def)

lemma encoded_first:
  assumes "\<forall>j < n. encodeErr env j = None" and "n < k" and "encodeErr env n = Some e"
  shows "encoded env 0 k = n"
proof -
  have "\<not> encoded env 0 k < n"
    using encoded_err [of env 0 k] assms by auto
  moreover have "\<not> n < encoded env 0 k"
    using encoded_ok [of n env 0 k] assms(3) by auto
  ultimately show ?thesis by simp
qed

lemma encoded_all0: "\<forall>j < k. encodeErr env j = None \<Longrightarrow> encoded env 0 k = k"
  using encoded_all [of k env 0] by simp

text \<open>The world in which the dispatch of a cycle starts, and the reference it uses.\<close>

lemma cycle_dispatch:
  assumes "Decode env messages = Inr msgs"
    and "\<not> (fstate env = ForwarderStateClosed \<and> closeWhenChange h)"
  shows "\<exists>f' w1 pre. cycle env h messages f w = dispatch env h msgs (drop (length msgs) messages) f' w1
           \<and> trace w1 = trace w @ pre \<and> filter isPutMsgs pre = [] \<and> filter isForward pre = []
           \<and> filter isReset pre = [] \<and> filter isWrite pre = []
           \<and> connCloses w1 = connCloses w \<and> conns w1 = conns w \<and> promOn w1 = promOn w
           \<and> buffer w1 = buffer w \<and> sent w1 = sent w"
proof (cases "fstate env = ForwarderStateClosed")
  case True
  then have "\<not> closeWhenChange h" using assms(2) by simp
  from cycle_closed_reacquire [OF assms(1) True this, of f w] show ?thesis
    by (intro exI [of _ "acquired w"]
          exI [of _ "emit [EvDecode, EvState f, EvRelease f, EvGetForwarder (ClusterID h) (acquired w)]
                       (w\<lparr>acquired := Suc (acquired w)\<rparr>)"]
          exI [of _ "[EvDecode, EvState f, EvRelease f, EvGetForwarder (ClusterID h) (acquired w)]"])
       (simp add: emit_def)
next
  case False
  from cycle_open [OF assms(1) False, of h f w] show ?thesis
    by (intro exI [of _ f] exI [of _ "emit [EvDecode, EvState f] w"]
          exI [of _ "[EvDecode, EvState f]"])
       (simp add: emit_def)
qed

lemma map_map2_req:
  "map (\<lambda>m. (req m, map_option g (req m))) (map2 (\<lambda>q m. m\<lparr>req := Some q\<rparr>) rs ms)
     = map (\<lambda>q. (Some q, Some (g q))) (take (length ms) rs)"
proof (induction rs arbitrary: ms)
  case Nil
  then show ?case by simp
next
  case (Cons q rs)
  then show ?case by (cases ms) simp_all
qed

lemma dispatch_Running:
  assumes "statusOf (dispatch env h msgs rest f w) = Running"
  shows "forward env = None \<and> encoded env 0 (length msgs) = length msgs \<and> flush env = None"
proof (cases rule: dispatch_cases [where env = env and msgs = msgs])
  case (forward_err e)
  then show ?thesis using assms by (simp add: dispatch_forward_err)
next
  case encode_err
  then show ?thesis using assms by (simp add: dispatch_encode_err)
next
  case (flush_err e)
  then show ?thesis using assms by (simp add: dispatch_flush_err)
next
  case ok
  then show ?thesis by simp
qed

lemma cycle_Running:
  assumes "statusOf (cycle env h messages f w) = Running"
  shows "\<exists>msgs. Decode env messages = Inr msgs
           \<and> \<not> (fstate env = ForwarderStateClosed \<and> closeWhenChange h)"
proof (cases "Decode env messages")
  case (Inl e)
  then show ?thesis using assms by (simp add: cycle_decode_err)
next
  case (Inr msgs)
  then show ?thesis
    using assms cycle_closed_policy [OF Inr, of h f w]
    by (auto simp: statusOf_def split_beta)
qed

lemma buffer_allocMaxConcurrent [simp]:
  "buffer (snd (allocMaxConcurrent s msgs c w)) = buffer w"
  "sent (snd (allocMaxConcurrent s msgs c w)) = sent w"
  by (simp_all add: allocMaxConcurrent_eq)

lemma trace_allocMaxConcurrent':
  "trace (snd (allocMaxConcurrent supply msgs c w)) = trace w @ allocEvents msgs c"
  by (simp add: trace_allocMaxConcurrent allocEvents_def)

lemma filter_allocEvents [simp]:
  "filter isForward (allocEvents msgs c) = []"
  "filter isReset (allocEvents msgs c) = []"
  "filter isRef (allocEvents msgs c) = []"
  by (simp_all add: allocEvents_def)

lemma filter_isWrite [simp]:
  "filter isWrite (map (EvEncode f \<circ> g) ms) = map (EvEncode f \<circ> g) ms"
  "filter isWrite (map EvReset ms) = []"
  "filter isWrite (allocEvents msgs c) = []"
  by (induction ms) (auto simp: allocEvents_def)

lemma afterEncode_all:
  "encoded env 0 (length msgs) = length msgs \<Longrightarrow>
   afterEncode env f msgs w =
     w\<lparr>buffer := buffer w @ map (\<lambda>m. (req m, map_option (reply env) (req m))) msgs,
       trace := trace w @ [EvForward f msgs, EvWait] @ map (EvEncode f) (map (Wait env) msgs)\<rparr>"
  by (simp add: afterEncode_def Wait_def comp_def)

lemma dispatch_ok_result:
  assumes "forward env = None" and "encoded env 0 (length msgs) = length msgs"
    and "flush env = None"
  shows "statusOf (dispatch env h msgs rest f w) = Running"
    and "handlerOf (dispatch env h msgs rest f w) = h"
    and "forwarderOf (dispatch env h msgs rest f w) = f"
    and "sent (worldOf (dispatch env h msgs rest f w))
           = sent w @ buffer w @ map (\<lambda>m. (req m, map_option (reply env) (req m))) msgs"
    and "buffer (worldOf (dispatch env h msgs rest f w)) = []"
    and "trace (worldOf (dispatch env h msgs rest f w))
           = trace w @ [EvForward f msgs, EvWait] @ map (EvEncode f) (map (Wait env) msgs)
               @ [EvFlush] @ map EvReset (encodedBatch env msgs)
               @ allocEvents (map Reset (encodedBatch env msgs) @ rest) (int (length msgs))"
  unfolding dispatch_ok [OF assms]
  by (simp_all add: proj_defs split_beta Flush_def assms emit_def afterEncode_all
        trace_allocMaxConcurrent')

subsection \<open>Forwarder references\<close>

lemma refEvents_append [simp]: "refEvents (xs @ ys) = refEvents xs @ refEvents ys"
  by (simp add: refEvents_def)

lemma refEvents_Nil [simp]: "refEvents [] = []"
  by (simp add: refEvents_def)

lemma refEvents_Cons [simp]:
  "refEvents (ev # evs) = (if isRef ev then ev # refEvents evs else refEvents evs)"
  by (simp add: refEvents_def)

lemma refEvents_Encode [simp]: "refEvents (map (EvEncode f) ms) = []"
  by (induction ms) auto

lemma refEvents_Encode_comp [simp]: "refEvents (map (EvEncode f \<circ> g) ms) = []"
  by (induction ms) auto

lemma refEvents_Reset [simp]: "refEvents (map EvReset ms) = []"
  by (induction ms) auto

lemma refEvents_closeEvents [simp]: "refEvents (closeEvents h w) = []"
  by (simp add: closeEvents_def)

lemma refEvents_allocEvents [simp]: "refEvents (allocEvents msgs c) = []"
  by (simp add: allocEvents_def)

lemma filter_isReset_Encode [simp]: "filter isReset (map (EvEncode f) ms) = []"
  by (induction ms) auto

lemma filter_isReset_Reset [simp]: "filter isReset (map EvReset ms) = map EvReset ms"
  by (induction ms) auto

lemma filter_isPutMsgs_Reset [simp]: "filter isPutMsgs (map EvReset ms) = []"
  by (induction ms) auto

lemma filter_isReset_closeEvents [simp]: "filter isReset (closeEvents h w) = []"
  by (simp add: closeEvents_def)

text \<open>Every returning path of the dispatch, at once.\<close>

lemma dispatch_Returned_exit:
  assumes "statusOf (dispatch env h msgs rest f w) = Returned"
  shows "\<exists>e b pre w1. dispatch env h msgs rest f w = exitWith b (Some e) f h w1
           \<and> trace w1 = trace w @ pre \<and> filter isReset pre = [] \<and> filter isPutMsgs pre = []
           \<and> refEvents pre = [] \<and> acquired w1 = acquired w \<and> promOn w1 = promOn w"
proof (cases rule: dispatch_cases [where env = env and msgs = msgs])
  case (forward_err e)
  show ?thesis
    unfolding dispatch_forward_err [OF forward_err]
    by (intro exI [of _ e] exI [of _ "msgs @ rest"] exI [of _ "[EvForward f msgs]"]
          exI [of _ "emit [EvForward f msgs] w"]) (simp add: emit_def)
next
  case encode_err
  obtain e where e: "encodeErr env (encoded env 0 (length msgs)) = Some e"
    using encoded_err [of env 0 "length msgs"] encode_err by auto
  show ?thesis
    unfolding dispatch_encode_err [OF encode_err] e
    by (intro exI [of _ e] exI [of _ "encodedBatch env msgs @ rest"]
          exI [of _ "[EvForward f msgs, EvWait]
                      @ map (EvEncode f) (take (Suc (encoded env 0 (length msgs))) (map (Wait env) msgs))
                      @ [EvFlush]"]
          exI [of _ "snd (Flush env (afterEncode env f msgs w))"])
       (simp add: Flush_def afterEncode_def emit_def split: option.splits)
next
  case (flush_err e)
  show ?thesis
    unfolding dispatch_flush_err [OF flush_err]
    by (intro exI [of _ e] exI [of _ "encodedBatch env msgs @ rest"]
          exI [of _ "[EvForward f msgs, EvWait]
                      @ map (EvEncode f) (take (Suc (encoded env 0 (length msgs))) (map (Wait env) msgs))
                      @ [EvFlush]"]
          exI [of _ "emit [EvFlush] (afterEncode env f msgs w)"])
       (simp add: afterEncode_def emit_def)
next
  case ok
  then show ?thesis
    using assms by (simp add: dispatch_ok_result)
qed

lemma acquired_allocMaxConcurrent [simp]:
  "acquired (snd (allocMaxConcurrent s msgs c w)) = acquired w"
  by (simp add: allocMaxConcurrent_eq)

lemma acquired_dispatch_ok:
  assumes "forward env = None" and "encoded env 0 (length msgs) = length msgs"
    and "flush env = None"
  shows "acquired (worldOf (dispatch env h msgs rest f w)) = acquired w"
  unfolding dispatch_ok [OF assms]
  by (simp add: worldOf_def split_beta Flush_def assms emit_def afterEncode_def)

lemma ClusterID_exitWith [simp]: "ClusterID (handlerOf (exitWith b e f h w)) = ClusterID h"
  by (simp add: handlerOf_exitWith)

lemma acquired_exitWith [simp]: "acquired (worldOf (exitWith b e f h w)) = acquired w"
  by (simp add: worldOf_exitWith)

lemma dispatch_refs:
  "forwarderOf (dispatch env h msgs rest f w) = f"
  "ClusterID (handlerOf (dispatch env h msgs rest f w)) = ClusterID h"
  "acquired (worldOf (dispatch env h msgs rest f w)) = acquired w"
  "refEvents (trace (worldOf (dispatch env h msgs rest f w)))
     = refEvents (trace w)
       @ (if statusOf (dispatch env h msgs rest f w) = Returned then [EvRelease f] else [])"
proof -
  let ?r = "dispatch env h msgs rest f w"
  have "forwarderOf ?r = f \<and> ClusterID (handlerOf ?r) = ClusterID h
        \<and> acquired (worldOf ?r) = acquired w
        \<and> refEvents (trace (worldOf ?r))
             = refEvents (trace w) @ (if statusOf ?r = Returned then [EvRelease f] else [])"
  proof (cases "statusOf ?r")
    case Running
    note ok = dispatch_Running [OF Running]
    show ?thesis
      using Running ok dispatch_ok_result(2,3,6) [of env msgs h rest f w]
        acquired_dispatch_ok [of env msgs h rest f w]
      by simp
  next
    case Returned
    obtain e b pre w1 where x: "?r = exitWith b (Some e) f h w1"
      and w1: "trace w1 = trace w @ pre" "refEvents pre = []" "acquired w1 = acquired w"
        "promOn w1 = promOn w"
      using dispatch_Returned_exit [OF Returned] by blast
    show ?thesis
      unfolding x by (simp add: trace_exitWith w1)
  qed
  then show "forwarderOf ?r = f" "ClusterID (handlerOf ?r) = ClusterID h"
    "acquired (worldOf ?r) = acquired w"
    "refEvents (trace (worldOf ?r))
       = refEvents (trace w) @ (if statusOf ?r = Returned then [EvRelease f] else [])"
    by simp_all
qed

lemma cycle_refs:
  assumes "acquired w = Suc f"
  shows "acquired (worldOf (cycle env h messages f w)) = Suc (forwarderOf (cycle env h messages f w))
       \<and> ClusterID (handlerOf (cycle env h messages f w)) = ClusterID h
       \<and> (forwarderOf (cycle env h messages f w) = f \<or> forwarderOf (cycle env h messages f w) = Suc f)
       \<and> refEvents (trace (worldOf (cycle env h messages f w)))
            = refEvents (trace w)
              @ (if forwarderOf (cycle env h messages f w) = f then []
                 else [EvRelease f, EvGetForwarder (ClusterID h) (Suc f)])
              @ (if statusOf (cycle env h messages f w) = Returned
                 then [EvRelease (forwarderOf (cycle env h messages f w))] else [])"
proof (cases "Decode env messages")
  case (Inl e)
  show ?thesis
    unfolding cycle_decode_err [OF Inl]
    using assms by (simp add: trace_exitWith emit_def)
next
  case (Inr msgs)
  show ?thesis
  proof (cases "fstate env = ForwarderStateClosed")
    case True
    show ?thesis
    proof (cases "closeWhenChange h")
      case True
      show ?thesis
        unfolding cycle_closed_policy [OF Inr \<open>fstate env = ForwarderStateClosed\<close> True]
        using assms by (simp add: proj_defs deferHandle_eq emit_def)
    next
      case False
      show ?thesis
        unfolding cycle_closed_reacquire [OF Inr \<open>fstate env = ForwarderStateClosed\<close> False]
          dispatch_refs
        using assms by (simp add: emit_def)
    qed
  next
    case False
    show ?thesis
      unfolding cycle_open [OF Inr False] dispatch_refs
      using assms by (simp add: emit_def)
  qed
qed

lemma refPairs_Nil [simp]: "refPairs cid [] = []"
  by (simp add: refPairs_def)

lemma handleLoop_refs:
  assumes "acquired w = Suc f" and "refEvents (trace w) = pre @ [EvGetForwarder (ClusterID h) f]"
  shows "f \<le> forwarderOf (handleLoop envs h messages f w)
       \<and> refEvents (trace (worldOf (handleLoop envs h messages f w)))
            = pre @ refPairs (ClusterID h) [f..<forwarderOf (handleLoop envs h messages f w)]
              @ [EvGetForwarder (ClusterID h) (forwarderOf (handleLoop envs h messages f w))]
              @ (if statusOf (handleLoop envs h messages f w) = Returned
                 then [EvRelease (forwarderOf (handleLoop envs h messages f w))] else [])"
  using assms
proof (induction envs arbitrary: h messages f w pre)
  case Nil
  then show ?case by (simp add: proj_defs)
next
  case (Cons env envs)
  let ?c = "cycle env h messages f w"
  note c = cycle_refs [OF Cons.prems(1), of env h messages]
  show ?case
  proof (cases "statusOf ?c")
    case Returned
    then have l: "handleLoop (env # envs) h messages f w = ?c"
      by (rule handleLoop_Returned)
    show ?thesis
      unfolding l using c Returned Cons.prems(2)
      by (auto simp: refPairs_def)
  next
    case Running
    obtain h' ms' f' w' where r: "?c = (Running, h', ms', f', w')"
      using Running by (cases ?c) (simp add: statusOf_def)
    have l: "handleLoop (env # envs) h messages f w = handleLoop envs h' ms' f' w'"
      by (simp add: r)
    have c': "acquired w' = Suc f'" "ClusterID h' = ClusterID h" "f' = f \<or> f' = Suc f"
      "refEvents (trace w') = refEvents (trace w)
         @ (if f' = f then [] else [EvRelease f, EvGetForwarder (ClusterID h) (Suc f)])"
      using c unfolding r by (simp_all add: proj_defs)
    show ?thesis
    proof (cases "f' = f")
      case True
      have p: "refEvents (trace w') = pre @ [EvGetForwarder (ClusterID h') f']"
        using c' True Cons.prems(2) by simp
      show ?thesis
        unfolding l using Cons.IH [OF c'(1) p, of ms'] c'(2) True by simp
    next
      case False
      then have s: "f' = Suc f" using c'(3) by simp
      have p: "refEvents (trace w')
                 = (pre @ [EvGetForwarder (ClusterID h) f, EvRelease f]) @ [EvGetForwarder (ClusterID h') f']"
        using c' False s Cons.prems(2) by simp
      note ih = Cons.IH [OF c'(1) p, of ms']
      have "[f..<forwarderOf (handleLoop envs h' ms' f' w')]
              = f # [Suc f..<forwarderOf (handleLoop envs h' ms' f' w')]"
        using ih s by (simp add: upt_conv_Cons)
      then show ?thesis
        unfolding l using ih c'(2) s by (simp add: refPairs_def)
    qed
  qed
qed

lemma filter_isPutMsgs_allocEvents:
  "filter isPutMsgs (allocEvents msgs c) = (if allocEvents msgs c = [] then [] else [EvPutMsgs msgs])"
  by (simp add: allocEvents_def)

lemma filter_isPutMsgs_Encode_comp [simp]: "filter isPutMsgs (map (EvEncode f \<circ> g) ms) = []"
  by (induction ms) auto

lemma filter_isReset_Encode_comp [simp]: "filter isReset (map (EvEncode f \<circ> g) ms) = []"
  by (induction ms) auto

lemma allocMaxConcurrent_reuse:
  "allocEvents msgs c = [] \<Longrightarrow> allocMaxConcurrent supply msgs c w = (msgs, w)"
  by (auto simp: allocMaxConcurrent_eq allocEvents_def split: if_splits)

lemma batchOf_dispatch_ok:
  assumes "forward env = None" and "encoded env 0 (length msgs) = length msgs"
    and "flush env = None"
    and "allocEvents (map Reset (encodedBatch env msgs) @ rest) (int (length msgs)) = []"
  shows "batchOf (dispatch env h msgs rest f w) = map Reset (encodedBatch env msgs) @ rest"
  unfolding dispatch_ok [OF assms(1-3)]
  by (simp add: allocMaxConcurrent_reuse [OF assms(4)] batchOf_def)

lemma cycle_Returned_puts:
  assumes "statusOf (cycle env h messages f w) = Returned"
  shows "filter isReset (since w (worldOf (cycle env h messages f w))) = []
       \<and> filter isPutMsgs (since w (worldOf (cycle env h messages f w)))
           = [EvPutMsgs (batchOf (cycle env h messages f w))]"
proof (cases "Decode env messages")
  case (Inl e)
  show ?thesis
    unfolding cycle_decode_err [OF Inl]
    by (simp add: since_def trace_exitWith emit_def)
next
  case (Inr msgs)
  show ?thesis
  proof (cases "fstate env = ForwarderStateClosed \<and> closeWhenChange h")
    case True
    then show ?thesis
      using cycle_closed_policy [OF Inr, of h f w]
      by (simp add: since_def proj_defs deferHandle_eq emit_def closeEvents_def)
  next
    case False
    obtain f' w1 pre where c: "cycle env h messages f w = dispatch env h msgs (drop (length msgs) messages) f' w1"
      and w1: "trace w1 = trace w @ pre" "filter isPutMsgs pre = []" "filter isReset pre = []"
      using cycle_dispatch [OF Inr False, of f w] by blast
    obtain e b pre' w2 where x: "dispatch env h msgs (drop (length msgs) messages) f' w1
                                   = exitWith b (Some e) f' h w2"
      and w2: "trace w2 = trace w1 @ pre'" "filter isReset pre' = []" "filter isPutMsgs pre' = []"
      using dispatch_Returned_exit [of env h msgs "drop (length msgs) messages" f' w1] assms c
      by auto
    show ?thesis
      unfolding c x by (simp add: since_def trace_exitWith w1 w2)
  qed
qed

subsection \<open>Interleaved callers\<close>

text \<open>
  One caller alone, run through its five statements, does what \<open>closeWithError\<close> does.
\<close>

lemma closeWithError_steps:
  "runSched [0, 0, 0, 0, 0] [(AtCAS, e)] (h, w) =
     ([(Finished, e)], closeWithError e (h, w))"
  by (simp add: closeStep_def closeWithError_def emit_def)

lemma closed_progress:
  "p \<noteq> AtCAS \<Longrightarrow> closed h = handlerOpening \<Longrightarrow> closed (fst (progress e p (h, w))) = handlerClosed"
  by (cases p) (simp_all add: progress_def closeWithError_def)

lemma closeStep_progress:
  assumes "p \<noteq> AtCAS" and "closed h = handlerOpening"
  shows "closeStep e p (progress e p (h, w))
           = (fst (closeStep e p (progress e p (h, w))),
              progress e (fst (closeStep e p (progress e p (h, w)))) (h, w))
         \<and> fst (closeStep e p (progress e p (h, w))) \<noteq> AtCAS"
  using assms
  by (cases p) (auto simp: closeStep_def progress_def closeWithError_def emit_def)

lemma closeStep_loser:
  assumes "closed (fst hw) \<noteq> handlerOpening" and "p = AtCAS \<or> p = Finished"
  shows "closeStep e p hw = (Finished, hw)"
  using assms by (cases hw) (auto simp: closeStep_def)

lemma won_step:
  assumes "won es (h0, w0) j ts hw" and "closed h0 = handlerOpening" and "i < length ts"
    and "closeStep (snd (ts ! i)) (fst (ts ! i)) hw = (p, hw')"
  shows "won es (h0, w0) j (ts[i := (p, snd (ts ! i))]) hw'"
proof (cases "i = j")
  case True
  have pj: "fst (ts ! j) \<noteq> AtCAS" and hw: "hw = progress (es ! j) (fst (ts ! j)) (h0, w0)"
    and sj: "snd (ts ! j) = es ! j"
    using assms(1) by (simp_all add: won_def)
  note s = closeStep_progress [OF pj assms(2), of "es ! j" w0]
  have "p \<noteq> AtCAS" and "hw' = progress (es ! j) p (h0, w0)"
    using s assms(4) True hw sj by (metis fst_conv snd_conv)+
  then show ?thesis
    using assms(1,3) True by (auto simp: won_def nth_list_update)
next
  case False
  have il: "i < length es" and len: "length ts = length es"
    using assms(1,3) by (simp_all add: won_def)
  have pi: "fst (ts ! i) = AtCAS \<or> fst (ts ! i) = Finished"
    using assms(1) il False by (simp add: won_def)
  have "closed (fst hw) = handlerClosed"
    using assms(1,2) closed_progress [of "fst (ts ! j)" h0 "es ! j" w0] by (simp add: won_def)
  then have "closed (fst hw) \<noteq> handlerOpening"
    by (simp add: handlerClosed_def handlerOpening_def)
  from closeStep_loser [OF this pi] assms(4) have "p = Finished" and "hw' = hw"
    by simp_all
  then show ?thesis
    using assms(1) False il by (auto simp: won_def nth_list_update)
qed

lemma won_runSched:
  assumes "won es (h0, w0) j ts hw" and "closed h0 = handlerOpening"
  shows "won es (h0, w0) j (fst (runSched sched ts hw)) (snd (runSched sched ts hw))"
  using assms(1)
proof (induction sched arbitrary: ts hw)
  case Nil
  then show ?case by simp
next
  case (Cons i sched)
  show ?case
  proof (cases "i < length ts")
    case True
    obtain p hw' where s: "closeStep (snd (ts ! i)) (fst (ts ! i)) hw = (p, hw')"
      by (cases "closeStep (snd (ts ! i)) (fst (ts ! i)) hw") auto
    from won_step [OF Cons.prems assms(2) True s] Cons.IH show ?thesis
      using True s by simp
  next
    case False
    then show ?thesis using Cons by simp
  qed
qed

lemma start_runSched:
  assumes "closed h0 = handlerOpening"
  shows "(List.find (\<lambda>i. i < length es) sched = None
            \<and> runSched sched (map (Pair AtCAS) es) (h0, w0) = (map (Pair AtCAS) es, h0, w0))
       \<or> (\<exists>j. List.find (\<lambda>i. i < length es) sched = Some j
              \<and> won es (h0, w0) j (fst (runSched sched (map (Pair AtCAS) es) (h0, w0)))
                   (snd (runSched sched (map (Pair AtCAS) es) (h0, w0))))"
proof (induction sched)
  case Nil
  then show ?case by simp
next
  case (Cons i sched)
  show ?case
  proof (cases "i < length es")
    case True
    let ?ts = "(map (Pair AtCAS) es)[i := (AtSetErr, es ! i)]"
    have s: "runSched (i # sched) (map (Pair AtCAS) es) (h0, w0)
               = runSched sched ?ts (h0\<lparr>closed := handlerClosed\<rparr>, w0)"
      using True assms by (simp add: closeStep_def)
    have "won es (h0, w0) i ?ts (h0\<lparr>closed := handlerClosed\<rparr>, w0)"
      using True by (auto simp: won_def nth_list_update progress_def)
    from won_runSched [OF this assms, of sched] show ?thesis
      using True s by simp
  next
    case False
    then show ?thesis using Cons by simp
  qed
qed

section \<open>The claims\<close>


subsection \<open>C1\<close>

text \<open>
  C1, as the claim has it, asks for one release of the held reference in every cycle,
  the successful ones too. A run of one successful cycle: the handler has acquired
  reference 0, the cycle has run to its end, \<open>handle\<close> is still running and holds reference
  0, and the trace has the acquisition and no release.
\<close>

theorem release_per_cycle_counterexample:
  "statusOf (handle exSupply [exEnv [1, 2]] exHandler exWorld) = Running
   \<and> forwarderOf (handle exSupply [exEnv [1, 2]] exHandler exWorld) = 0
   \<and> refEvents (trace (worldOf (handle exSupply [exEnv [1, 2]] exHandler exWorld)))
       = [EvGetForwarder 7 0]"
  by code_simp

text \<open>
  C1, as the code has it. \<open>handle\<close> acquires a reference before the loop and holds it
  from cycle to cycle. Over a whole run, whatever the cycles are, the acquisitions and
  releases in the trace are: each reference but the last acquired and then released, one
  after the other; then the last reference acquired; and its release exactly when
  \<open>handle\<close> has returned. So every reference is released at most once, never before it
  is acquired, and exactly once by the time \<open>handle\<close> returns; while the loop runs the
  handler holds one reference that is not released.
\<close>

theorem references_released_once:
  "refEvents (trace (worldOf (handle supply envs h w)))
     = refEvents (trace w)
       @ refPairs (ClusterID h) [acquired w..<forwarderOf (handle supply envs h w)]
       @ [EvGetForwarder (ClusterID h) (forwarderOf (handle supply envs h w))]
       @ (if statusOf (handle supply envs h w) = Returned
          then [EvRelease (forwarderOf (handle supply envs h w))] else [])"
proof -
  let ?w1 = "snd (allocMaxConcurrent supply [] 0 w)"
  let ?w2 = "emit [EvGetForwarder (ClusterID h) (acquired w)] (?w1\<lparr>acquired := Suc (acquired w)\<rparr>)"
  have h: "handle supply envs h w
             = handleLoop envs h (fst (allocMaxConcurrent supply [] 0 w)) (acquired w) ?w2"
    by (simp add: handle_def split_beta GetForwarder_def)
  have a: "acquired ?w2 = Suc (acquired w)"
    by (simp add: emit_def)
  have t: "refEvents (trace ?w2) = refEvents (trace w) @ [EvGetForwarder (ClusterID h) (acquired w)]"
    by (simp add: emit_def trace_allocMaxConcurrent')
  show ?thesis
    unfolding h using handleLoop_refs [OF a t, of envs "fst (allocMaxConcurrent supply [] 0 w)"]
    by simp
qed

subsection \<open>C2\<close>

text \<open>
  C2. Any number of callers of \<open>closeWithError\<close> on a handler that is opening, the
  i-th called with error \<open>es ! i\<close>, interleaved in any way by a schedule after which all
  of them are done. Handler and world are then what one call of \<open>closeWithError\<close> with
  the error of the caller scheduled first makes of them: that error is recorded, the
  counter \<open>p.conns\<close> is one less, the raw connection was closed once; and any further
  call of \<open>closeWithError\<close> changes nothing.
\<close>

theorem close_idempotent:
  assumes "closed h = handlerOpening" and "es \<noteq> []"
    and "list_all (\<lambda>t. fst t = Finished) (fst (runSched sched (map (Pair AtCAS) es) (h, w)))"
  shows "\<exists>j < length es. List.find (\<lambda>i. i < length es) sched = Some j
           \<and> snd (runSched sched (map (Pair AtCAS) es) (h, w)) = closeWithError (es ! j) (h, w)
           \<and> closed (fst (closeWithError (es ! j) (h, w))) = handlerClosed
           \<and> err (fst (closeWithError (es ! j) (h, w))) = es ! j
           \<and> conns (snd (closeWithError (es ! j) (h, w))) = conns w - 1
           \<and> connCloses (snd (closeWithError (es ! j) (h, w))) = Suc (connCloses w)
           \<and> (\<forall>e. closeWithError e (closeWithError (es ! j) (h, w)) = closeWithError (es ! j) (h, w))"
proof -
  let ?r = "runSched sched (map (Pair AtCAS) es) (h, w)"
  have "fst ?r \<noteq> map (Pair AtCAS) es"
  proof
    assume "fst ?r = map (Pair AtCAS) es"
    then have "list_all (\<lambda>t. fst t = Finished) (map (Pair AtCAS) es)"
      using assms(3) by simp
    then show False
      using assms(2) by (cases es) simp_all
  qed
  then obtain j where f: "List.find (\<lambda>i. i < length es) sched = Some j"
    and won: "won es (h, w) j (fst ?r) (snd ?r)"
    using start_runSched [OF assms(1), of es sched w] by auto
  have j: "j < length es" and len: "length (fst ?r) = length es"
    and hw: "snd ?r = progress (es ! j) (fst (fst ?r ! j)) (h, w)"
    using won by (simp_all add: won_def)
  have "fst (fst ?r ! j) = Finished"
    using assms(3) j len by (simp add: list_all_length)
  then have fin: "snd ?r = closeWithError (es ! j) (h, w)"
    using hw by (simp add: progress_def)
  show ?thesis
    using j f fin assms(1)
    by (intro exI [of _ j])
       (simp add: closeWithError_def handlerOpening_def handlerClosed_def emit_def)
qed

theorem close_idempotent_witness:
  "closed exHandler = handlerOpening \<and> [Some EOF, Some (ErrOther 1)] \<noteq> []
   \<and> list_all (\<lambda>t. fst t = Finished)
         (fst (runSched [1, 0, 1, 1, 0, 1, 1] (map (Pair AtCAS) [Some EOF, Some (ErrOther 1)])
                 (exHandler, exWorld)))
   \<and> err (fst (snd (runSched [1, 0, 1, 1, 0, 1, 1] (map (Pair AtCAS) [Some EOF, Some (ErrOther 1)])
                 (exHandler, exWorld)))) = Some (ErrOther 1)
   \<and> conns (snd (snd (runSched [1, 0, 1, 1, 0, 1, 1] (map (Pair AtCAS) [Some EOF, Some (ErrOther 1)])
                 (exHandler, exWorld)))) = 4"
proof -
  have c: "closed exHandler = handlerOpening"
    by (simp add: exHandler_def handlerOpening_def)
  have a: "list_all (\<lambda>t. fst t = Finished)
         (fst (runSched [1, 0, 1, 1, 0, 1, 1] (map (Pair AtCAS) [Some EOF, Some (ErrOther 1)])
                 (exHandler, exWorld)))"
    by (simp add: closeStep_def exHandler_def exWorld_def handlerOpening_def handlerClosed_def emit_def)
  show ?thesis
    using close_idempotent [OF c _ a] c a
    by (auto simp: closeWithError_def exHandler_def exWorld_def handlerOpening_def emit_def)
qed

subsection \<open>C3\<close>

text \<open>
  C3, as the claim has it, ties the deregistration to the first transition. The handler
  of the example is closed by a first call of \<open>closeWithError\<close> (a shutdown from
  outside, say): the transition leaves the connection in the registry. The later close
  attempt, \<open>deferHandle\<close> from the loop, finds the handler closed and still calls
  \<open>RemoveConnection\<close>, which takes the connection out of the registry, and \<open>PutMsgs\<close>. And
  of two calls of \<open>deferHandle\<close> both call \<open>RemoveConnection\<close>.
\<close>

theorem deregister_on_later_close_counterexample:
  "closed (fst (closeWithError (Some EOF) (exHandler, exWorld))) = handlerClosed
   \<and> registry (snd (closeWithError (Some EOF) (exHandler, exWorld))) = {(7, 42)}
   \<and> registry (snd (deferHandle [exMsg] (Some (ErrOther 1))
                       (closeWithError (Some EOF) (exHandler, exWorld)))) = {}
   \<and> trace (snd (deferHandle [exMsg] (Some (ErrOther 1))
                    (closeWithError (Some EOF) (exHandler, exWorld))))
       = [EvConnClose, EvConnDecr ''test'', EvRemoveConnection 7 42, EvPutMsgs [exMsg]]
   \<and> trace (snd (deferHandle [] (Some (ErrOther 1))
                    (deferHandle [exMsg] (Some EOF) (exHandler, exWorld))))
       = [EvRemoveConnection 7 42, EvPutMsgs [exMsg], EvConnClose, EvConnDecr ''test'',
          EvRemoveConnection 7 42, EvPutMsgs []]"
  by (simp add: closeWithError_def deferHandle_def RemoveConnection_def PutMsgs_def emit_def
        exHandler_def exWorld_def handlerOpening_def handlerClosed_def)

text \<open>
  C3, as the code has it. On a handler that is opening, \<open>closeWithError\<close> makes the
  transition, records the error, closes the raw connection and decrements \<open>p.conns\<close>;
  it leaves the registry alone. On a handler that is not opening, \<open>closeWithError\<close>
  changes nothing at all, and \<open>deferHandle\<close> still calls \<open>RemoveConnection\<close> and
  \<open>PutMsgs\<close> and nothing else. \<open>deferHandle\<close> takes the connection out of the registry
  whatever the state of the handler. After \<open>closeWithError\<close> a handler is never opening.
\<close>

theorem close_side_effects:
  "(closed h = handlerOpening \<longrightarrow>
      fst (closeWithError e (h, w)) = h\<lparr>closed := handlerClosed, err := e\<rparr>
      \<and> connCloses (snd (closeWithError e (h, w))) = Suc (connCloses w)
      \<and> conns (snd (closeWithError e (h, w))) = conns w - 1
      \<and> registry (snd (closeWithError e (h, w))) = registry w)
   \<and> (closed h' \<noteq> handlerOpening \<longrightarrow>
        closeWithError e (h', w) = (h', w)
        \<and> deferHandle msgs e (h', w)
            = (h', w\<lparr>registry := registry w - {(ClusterID h', conn h')},
                     trace := trace w @ [EvRemoveConnection (ClusterID h') (conn h'),
                                         EvPutMsgs msgs]\<rparr>))
   \<and> registry (snd (deferHandle msgs e (g, w))) = registry w - {(ClusterID g, conn g)}
   \<and> closed (fst (closeWithError e (g, w))) \<noteq> handlerOpening"
  by (simp add: closeWithError_eq deferHandle_eq handlerOpening_def handlerClosed_def)

theorem close_side_effects_witness:
  "closed exHandler = handlerOpening
   \<and> closed (exHandler\<lparr>closed := handlerClosed\<rparr>) \<noteq> handlerOpening
   \<and> fst (closeWithError (Some EOF) (exHandler, exWorld))
       = exHandler\<lparr>closed := handlerClosed, err := Some EOF\<rparr>
   \<and> conns (snd (closeWithError (Some EOF) (exHandler, exWorld))) = 4
   \<and> closeWithError (Some EOF) (exHandler\<lparr>closed := handlerClosed\<rparr>, exWorld)
       = (exHandler\<lparr>closed := handlerClosed\<rparr>, exWorld)
   \<and> registry (snd (deferHandle [exMsg] (Some EOF) (exHandler\<lparr>closed := handlerClosed\<rparr>, exWorld)))
       = {}"
  using close_side_effects [of exHandler "Some EOF" exWorld "exHandler\<lparr>closed := handlerClosed\<rparr>"
          "[exMsg]" "exHandler\<lparr>closed := handlerClosed\<rparr>"]
  by (simp add: exHandler_def exWorld_def handlerOpening_def handlerClosed_def)

subsection \<open>C4\<close>

text \<open>
  C4. A cycle whose \<open>Decode\<close> succeeded and whose forwarder answers \<open>Closed\<close>. With
  the close-on-change policy set, \<open>handle\<close> returns, the cycle has made no \<open>Forward\<close>
  call, the handler is not opening any more, and if it was opening the raw connection has
  been closed. With the policy not set, the cycle releases the reference it held, acquires
  a new one for the cluster of the handler, and its one \<open>Forward\<close> call hands the decoded
  messages to that new reference.
\<close>

theorem closed_forwarder:
  assumes "Decode env messages = Inr msgs" and "fstate env = ForwarderStateClosed"
  shows "(closeWhenChange h \<longrightarrow>
            statusOf (cycle env h messages f w) = Returned
            \<and> filter isForward (since w (worldOf (cycle env h messages f w))) = []
            \<and> closed (handlerOf (cycle env h messages f w)) \<noteq> handlerOpening
            \<and> (closed h = handlerOpening \<longrightarrow>
                 connCloses (worldOf (cycle env h messages f w)) = Suc (connCloses w)))
       \<and> (\<not> closeWhenChange h' \<longrightarrow>
            take 5 (since w (worldOf (cycle env h' messages f w)))
              = [EvDecode, EvState f, EvRelease f, EvGetForwarder (ClusterID h') (acquired w),
                 EvForward (acquired w) msgs]
            \<and> filter isForward (since w (worldOf (cycle env h' messages f w)))
              = [EvForward (acquired w) msgs])"
proof (intro conjI impI)
  assume p: "closeWhenChange h"
  show "statusOf (cycle env h messages f w) = Returned"
    by (simp add: cycle_closed_policy [OF assms p] statusOf_def split: prod.splits)
  have "trace (worldOf (cycle env h messages f w)) =
          trace w @ [EvDecode, EvState f, EvRelease f, EvRemoveConnection (ClusterID h) (conn h),
                     EvPutMsgs (msgs @ drop (length msgs) messages)] @ closeEvents h w"
    by (simp add: cycle_closed_policy [OF assms p] worldOf_def deferHandle_eq emit_def closeEvents_def)
  then show "filter isForward (since w (worldOf (cycle env h messages f w))) = []"
    by (simp add: since_def)
  show "closed (handlerOf (cycle env h messages f w)) \<noteq> handlerOpening"
    by (simp add: cycle_closed_policy [OF assms p] handlerOf_def deferHandle_eq
          handlerOpening_def handlerClosed_def)
  show "connCloses (worldOf (cycle env h messages f w)) = Suc (connCloses w)"
    if "closed h = handlerOpening"
    using that by (simp add: cycle_closed_policy [OF assms p] worldOf_def deferHandle_eq emit_def)
next
  assume p: "\<not> closeWhenChange h'"
  let ?w = "emit [EvDecode, EvState f, EvRelease f, EvGetForwarder (ClusterID h') (acquired w)]
              (w\<lparr>acquired := Suc (acquired w)\<rparr>)"
  let ?rest = "drop (length msgs) messages"
  have c: "cycle env h' messages f w = dispatch env h' msgs ?rest (acquired w) ?w"
    by (rule cycle_closed_reacquire [OF assms p])
  have "\<exists>evs. trace (worldOf (dispatch env h' msgs ?rest (acquired w) ?w))
          = trace ?w @ EvForward (acquired w) msgs # evs \<and> filter isForward evs = []"
  proof (cases rule: dispatch_cases [where env = env and msgs = msgs])
    case (forward_err e)
    then show ?thesis
      by (simp add: dispatch_forward_err trace_exitWith emit_def)
  next
    case encode_err
    then show ?thesis
      by (simp add: dispatch_encode_err trace_exitWith Flush_def afterEncode_def emit_def
            split: option.splits)
  next
    case (flush_err e)
    then show ?thesis
      by (simp add: dispatch_flush_err trace_exitWith afterEncode_def emit_def)
  next
    case ok
    then show ?thesis
      by (simp add: dispatch_ok worldOf_def split_beta trace_allocMaxConcurrent Flush_def
            afterEncode_def emit_def)
  qed
  then obtain evs where
    t: "trace (worldOf (cycle env h' messages f w)) =
          trace w @ [EvDecode, EvState f, EvRelease f, EvGetForwarder (ClusterID h') (acquired w),
                     EvForward (acquired w) msgs] @ evs"
    and nf: "filter isForward evs = []"
    unfolding c by (auto simp: emit_def)
  show "take 5 (since w (worldOf (cycle env h' messages f w)))
          = [EvDecode, EvState f, EvRelease f, EvGetForwarder (ClusterID h') (acquired w),
             EvForward (acquired w) msgs]"
    by (simp add: since_def t)
  show "filter isForward (since w (worldOf (cycle env h' messages f w)))
          = [EvForward (acquired w) msgs]"
    by (simp add: since_def t nf)
qed

theorem closed_forwarder_witness:
  "Decode ((exEnv [1])\<lparr>fstate := ForwarderStateClosed\<rparr>) [exMsg, exMsg] = Inr [exMsg\<lparr>req := Some 1\<rparr>]
   \<and> fstate ((exEnv [1])\<lparr>fstate := ForwarderStateClosed\<rparr>) = ForwarderStateClosed
   \<and> closeWhenChange (exHandler\<lparr>closeWhenChange := True\<rparr>)
   \<and> closed (exHandler\<lparr>closeWhenChange := True\<rparr>) = handlerOpening
   \<and> \<not> closeWhenChange exHandler
   \<and> statusOf (cycle ((exEnv [1])\<lparr>fstate := ForwarderStateClosed\<rparr>)
          (exHandler\<lparr>closeWhenChange := True\<rparr>) [exMsg, exMsg] 0 (exWorld\<lparr>acquired := 1\<rparr>)) = Returned
   \<and> filter isForward (since (exWorld\<lparr>acquired := 1\<rparr>)
          (worldOf (cycle ((exEnv [1])\<lparr>fstate := ForwarderStateClosed\<rparr>)
             (exHandler\<lparr>closeWhenChange := True\<rparr>) [exMsg, exMsg] 0 (exWorld\<lparr>acquired := 1\<rparr>)))) = []
   \<and> connCloses (worldOf (cycle ((exEnv [1])\<lparr>fstate := ForwarderStateClosed\<rparr>)
          (exHandler\<lparr>closeWhenChange := True\<rparr>) [exMsg, exMsg] 0 (exWorld\<lparr>acquired := 1\<rparr>))) = 1
   \<and> filter isForward (since (exWorld\<lparr>acquired := 1\<rparr>)
          (worldOf (cycle ((exEnv [1])\<lparr>fstate := ForwarderStateClosed\<rparr>)
             exHandler [exMsg, exMsg] 0 (exWorld\<lparr>acquired := 1\<rparr>))))
       = [EvForward 1 [exMsg\<lparr>req := Some 1\<rparr>]]"
  using closed_forwarder [of "(exEnv [1])\<lparr>fstate := ForwarderStateClosed\<rparr>" "[exMsg, exMsg]"
          "[exMsg\<lparr>req := Some 1\<rparr>]" "exHandler\<lparr>closeWhenChange := True\<rparr>" 0
          "exWorld\<lparr>acquired := 1\<rparr>" exHandler]
  by (simp add: Decode_def exEnv_def exHandler_def exWorld_def exMsg_def handlerOpening_def)

subsection \<open>C5\<close>



subsection \<open>C6\<close>

text \<open>
  C6. The four failures of a cycle: \<open>Decode\<close> fails; \<open>Forward\<close> fails; \<open>Encode\<close>
  fails for the message at position \<open>n\<close> after succeeding for the ones before it;
  \<open>Flush\<close> fails after every message was encoded. In each of them the cycle ends as
  \<open>failureExit\<close> says, with the error of the failing call, and the loop makes no further
  pass: whatever cycles would follow, \<open>handleLoop\<close> ends with this one. After a failure of
  \<open>Encode\<close> the handler calls \<open>Flush\<close> right before it closes, and when that \<open>Flush\<close>
  succeeds the responses encoded so far have reached the client.
\<close>

theorem failure_paths:
  "(Decode env1 messages = Inl e \<longrightarrow>
      failureExit e h w (cycle env1 h messages f w)
      \<and> handleLoop (env1 # envs) h messages f w = cycle env1 h messages f w)
   \<and> (Decode env2 messages = Inr msgs
        \<and> \<not> (fstate env2 = ForwarderStateClosed \<and> closeWhenChange h)
        \<and> forward env2 = Some e \<longrightarrow>
      failureExit e h w (cycle env2 h messages f w)
      \<and> handleLoop (env2 # envs) h messages f w = cycle env2 h messages f w)
   \<and> (Decode env3 messages = Inr msgs
        \<and> \<not> (fstate env3 = ForwarderStateClosed \<and> closeWhenChange h)
        \<and> forward env3 = None
        \<and> (\<forall>j < n. encodeErr env3 j = None) \<and> n < length msgs \<and> encodeErr env3 n = Some e \<longrightarrow>
      failureExit e h w (cycle env3 h messages f w)
      \<and> handleLoop (env3 # envs) h messages f w = cycle env3 h messages f w
      \<and> endsWith (since w (worldOf (cycle env3 h messages f w)))
            ([EvFlush, EvRemoveConnection (ClusterID h) (conn h),
              EvPutMsgs (batchOf (cycle env3 h messages f w))]
             @ closeEvents h w @ [EvRelease (forwarderOf (cycle env3 h messages f w))])
      \<and> (flush env3 = None \<longrightarrow>
            sent (worldOf (cycle env3 h messages f w))
              = sent w @ buffer w @ map (\<lambda>m. (req m, map_option (reply env3) (req m))) (take n msgs)))
   \<and> (Decode env4 messages = Inr msgs
        \<and> \<not> (fstate env4 = ForwarderStateClosed \<and> closeWhenChange h)
        \<and> forward env4 = None
        \<and> (\<forall>j < length msgs. encodeErr env4 j = None) \<and> flush env4 = Some e \<longrightarrow>
      failureExit e h w (cycle env4 h messages f w)
      \<and> handleLoop (env4 # envs) h messages f w = cycle env4 h messages f w)"
proof (intro conjI impI; (elim conjE)?)
  assume d: "Decode env1 messages = Inl e"
  show x: "failureExit e h w (cycle env1 h messages f w)"
    unfolding cycle_decode_err [OF d]
    by (rule failureExit_exitWith [where pre = "[EvDecode]"]) (simp_all add: emit_def)
  show "handleLoop (env1 # envs) h messages f w = cycle env1 h messages f w"
    by (rule handleLoop_Returned) (use x in \<open>simp add: failureExit_def\<close>)
next
  assume d: "Decode env2 messages = Inr msgs"
    and p: "\<not> (fstate env2 = ForwarderStateClosed \<and> closeWhenChange h)"
    and fe: "forward env2 = Some e"
  obtain f' w1 pre where c: "cycle env2 h messages f w = dispatch env2 h msgs (drop (length msgs) messages) f' w1"
    and w1: "trace w1 = trace w @ pre" "filter isPutMsgs pre = []"
      "connCloses w1 = connCloses w" "conns w1 = conns w" "promOn w1 = promOn w"
    using cycle_dispatch [OF d p, of f w] by blast
  show x: "failureExit e h w (cycle env2 h messages f w)"
    unfolding c dispatch_forward_err [OF fe]
    by (rule failureExit_exitWith [where pre = "pre @ [EvForward f' msgs]"])
       (simp_all add: emit_def w1)
  show "handleLoop (env2 # envs) h messages f w = cycle env2 h messages f w"
    by (rule handleLoop_Returned) (use x in \<open>simp add: failureExit_def\<close>)
next
  assume d: "Decode env4 messages = Inr msgs"
    and p: "\<not> (fstate env4 = ForwarderStateClosed \<and> closeWhenChange h)"
    and fe: "forward env4 = None" and ok: "\<forall>j < length msgs. encodeErr env4 j = None"
    and fl: "flush env4 = Some e"
  obtain f' w1 pre where c: "cycle env4 h messages f w = dispatch env4 h msgs (drop (length msgs) messages) f' w1"
    and w1: "trace w1 = trace w @ pre" "filter isPutMsgs pre = []"
      "connCloses w1 = connCloses w" "conns w1 = conns w" "promOn w1 = promOn w"
    using cycle_dispatch [OF d p, of f w] by blast
  show x: "failureExit e h w (cycle env4 h messages f w)"
    unfolding c dispatch_flush_err [OF fe encoded_all0 [OF ok] fl]
    by (rule failureExit_exitWith [where pre = "pre @ [EvForward f' msgs, EvWait]
            @ map (EvEncode f') (map (Wait env4) msgs) @ [EvFlush]"])
       (simp_all add: emit_def w1 afterEncode_def encoded_all0 [OF ok])
  show "handleLoop (env4 # envs) h messages f w = cycle env4 h messages f w"
    by (rule handleLoop_Returned) (use x in \<open>simp add: failureExit_def\<close>)
next
  assume d: "Decode env3 messages = Inr msgs"
    and p: "\<not> (fstate env3 = ForwarderStateClosed \<and> closeWhenChange h)"
    and fe: "forward env3 = None" and ok: "\<forall>j < n. encodeErr env3 j = None"
    and n: "n < length msgs" and ee: "encodeErr env3 n = Some e"
  have en: "encoded env3 0 (length msgs) = n"
    by (rule encoded_first [OF ok n ee])
  then have lt: "encoded env3 0 (length msgs) < length msgs"
    using n by simp
  obtain f' w1 pre where c: "cycle env3 h messages f w = dispatch env3 h msgs (drop (length msgs) messages) f' w1"
    and w1: "trace w1 = trace w @ pre" "filter isPutMsgs pre = []"
      "connCloses w1 = connCloses w" "conns w1 = conns w" "promOn w1 = promOn w"
      "buffer w1 = buffer w" "sent w1 = sent w"
    using cycle_dispatch [OF d p, of f w] by blast
  let ?w2 = "snd (Flush env3 (afterEncode env3 f' msgs w1))"
  let ?pre = "pre @ [EvForward f' msgs, EvWait]
                @ map (EvEncode f') (take (Suc n) (map (Wait env3) msgs))"
  have c': "cycle env3 h messages f w =
              exitWith (encodedBatch env3 msgs @ drop (length msgs) messages) (Some e) f' h ?w2"
    unfolding c dispatch_encode_err [OF fe lt] en ee ..
  have t2: "trace ?w2 = trace w @ ?pre @ [EvFlush]"
    unfolding afterEncode_def en
    by (simp add: Flush_def emit_def w1 split: option.splits)
  have w2: "connCloses ?w2 = connCloses w" "conns ?w2 = conns w" "promOn ?w2 = promOn w"
    by (simp_all add: Flush_def afterEncode_def emit_def w1 split: option.splits)
  show x: "failureExit e h w (cycle env3 h messages f w)"
    unfolding c'
    by (rule failureExit_exitWith [where pre = "?pre @ [EvFlush]"])
       (simp_all add: t2 w1 w2)
  show "handleLoop (env3 # envs) h messages f w = cycle env3 h messages f w"
    by (rule handleLoop_Returned) (use x in \<open>simp add: failureExit_def\<close>)
  have "since w (worldOf (cycle env3 h messages f w)) =
          ?pre @ ([EvFlush, EvRemoveConnection (ClusterID h) (conn h),
              EvPutMsgs (batchOf (cycle env3 h messages f w))]
             @ closeEvents h w @ [EvRelease (forwarderOf (cycle env3 h messages f w))])"
    unfolding c' by (simp add: since_def trace_exitWith t2 closeEvents_cong [OF w2(3)])
  then show "endsWith (since w (worldOf (cycle env3 h messages f w)))
            ([EvFlush, EvRemoveConnection (ClusterID h) (conn h),
              EvPutMsgs (batchOf (cycle env3 h messages f w))]
             @ closeEvents h w @ [EvRelease (forwarderOf (cycle env3 h messages f w))])"
    by (simp only: endsWith_append)
  show "sent (worldOf (cycle env3 h messages f w))
          = sent w @ buffer w @ map (\<lambda>m. (req m, map_option (reply env3) (req m))) (take n msgs)"
    if "flush env3 = None"
    unfolding c' using that
    by (simp add: worldOf_exitWith Flush_def afterEncode_def emit_def w1 en take_map Wait_def comp_def)
qed

theorem failure_paths_witness:
  "Decode ((exEnv [1, 2])\<lparr>decode := Inl EOF\<rparr>) [exMsg, exMsg] = Inl EOF
   \<and> Decode ((exEnv [1, 2])\<lparr>forward := Some EOF\<rparr>) [exMsg, exMsg]
        = Inr [exMsg\<lparr>req := Some 1\<rparr>, exMsg\<lparr>req := Some 2\<rparr>]
   \<and> forward ((exEnv [1, 2])\<lparr>forward := Some EOF\<rparr>) = Some EOF
   \<and> encodeErr ((exEnv [1, 2])\<lparr>encodeErr := (\<lambda>i. if i = 1 then Some EOF else None)\<rparr>) 1 = Some EOF
   \<and> flush ((exEnv [1, 2])\<lparr>flush := Some EOF\<rparr>) = Some EOF
   \<and> closed exHandler = handlerOpening
   \<and> failureExit EOF exHandler exWorld
         (cycle ((exEnv [1, 2])\<lparr>decode := Inl EOF\<rparr>) exHandler [exMsg, exMsg] 0 exWorld)
   \<and> err (handlerOf (cycle ((exEnv [1, 2])\<lparr>decode := Inl EOF\<rparr>) exHandler [exMsg, exMsg] 0 exWorld))
        = Some EOF
   \<and> failureExit EOF exHandler exWorld
         (cycle ((exEnv [1, 2])\<lparr>forward := Some EOF\<rparr>) exHandler [exMsg, exMsg] 0 exWorld)
   \<and> failureExit EOF exHandler exWorld
         (cycle ((exEnv [1, 2])\<lparr>encodeErr := (\<lambda>i. if i = 1 then Some EOF else None)\<rparr>)
            exHandler [exMsg, exMsg] 0 exWorld)
   \<and> sent (worldOf (cycle ((exEnv [1, 2])\<lparr>encodeErr := (\<lambda>i. if i = 1 then Some EOF else None)\<rparr>)
            exHandler [exMsg, exMsg] 0 exWorld)) = [(Some 1, Some 101)]
   \<and> failureExit EOF exHandler exWorld
         (cycle ((exEnv [1, 2])\<lparr>flush := Some EOF\<rparr>) exHandler [exMsg, exMsg] 0 exWorld)
   \<and> handleLoop [(exEnv [1, 2])\<lparr>flush := Some EOF\<rparr>, exEnv [3]] exHandler [exMsg, exMsg] 0 exWorld
        = cycle ((exEnv [1, 2])\<lparr>flush := Some EOF\<rparr>) exHandler [exMsg, exMsg] 0 exWorld"
proof -
  have o: "closed exHandler = handlerOpening"
    by (simp add: exHandler_def handlerOpening_def)
  note f = failure_paths [of "(exEnv [1, 2])\<lparr>decode := Inl EOF\<rparr>" "[exMsg, exMsg]" EOF exHandler
          exWorld 0 "[exEnv [3]]" "(exEnv [1, 2])\<lparr>forward := Some EOF\<rparr>"
          "[exMsg\<lparr>req := Some 1\<rparr>, exMsg\<lparr>req := Some 2\<rparr>]"
          "(exEnv [1, 2])\<lparr>encodeErr := (\<lambda>i. if i = 1 then Some EOF else None)\<rparr>" 1
          "(exEnv [1, 2])\<lparr>flush := Some EOF\<rparr>"]
  have d: "Decode ((exEnv [1, 2])\<lparr>decode := Inl EOF\<rparr>) [exMsg, exMsg] = Inl EOF"
    by (simp add: Decode_def exEnv_def)
  have "failureExit EOF exHandler exWorld
         (cycle ((exEnv [1, 2])\<lparr>decode := Inl EOF\<rparr>) exHandler [exMsg, exMsg] 0 exWorld)"
    using f d by simp
  then have e: "err (handlerOf (cycle ((exEnv [1, 2])\<lparr>decode := Inl EOF\<rparr>) exHandler
                  [exMsg, exMsg] 0 exWorld)) = Some EOF"
    using o by (simp add: failureExit_def)
  show ?thesis
    using f o e
    by (simp add: Decode_def exEnv_def exHandler_def exWorld_def exMsg_def)
qed

subsection \<open>C7\<close>

text \<open>
  C7. A cycle that ran to its end, starting with an empty write buffer: the client has
  received, after what it had received before, the reply to each request \<open>Decode\<close> read
  (as many as the batch has slots), in the order \<open>Decode\<close> read them; the write buffer
  is empty again; the one \<open>Forward\<close> call of the cycle carried the decoded messages, and
  as many responses have reached the client as messages were forwarded. The handler's
  own part in it: it called \<open>Encode\<close> once for each decoded message, in the order
  \<open>Decode\<close> returned them, and then \<open>Flush\<close> once.
\<close>

theorem responses_in_decode_order:
  assumes "decode env = Inr rs" and "statusOf (cycle env h messages f w) = Running"
    and "buffer w = []"
  shows "sent (worldOf (cycle env h messages f w))
           = sent w @ map (\<lambda>q. (Some q, Some (reply env q))) (take (length messages) rs)
       \<and> buffer (worldOf (cycle env h messages f w)) = []
       \<and> filter isForward (since w (worldOf (cycle env h messages f w)))
           = [EvForward (forwarderOf (cycle env h messages f w))
                (map2 (\<lambda>q m. m\<lparr>req := Some q\<rparr>) rs messages)]
       \<and> length (sent (worldOf (cycle env h messages f w)))
           = length (sent w) + length (map2 (\<lambda>q m. m\<lparr>req := Some q\<rparr>) rs messages)
       \<and> filter isWrite (since w (worldOf (cycle env h messages f w)))
           = map (\<lambda>m. EvEncode (forwarderOf (cycle env h messages f w)) (Wait env m))
               (map2 (\<lambda>q m. m\<lparr>req := Some q\<rparr>) rs messages) @ [EvFlush]"
proof -
  define msgs where "msgs = map2 (\<lambda>q m. m\<lparr>req := Some q\<rparr>) rs messages"
  define rest where "rest = drop (length msgs) messages"
  have d: "Decode env messages = Inr msgs"
    using assms(1) by (simp add: Decode_def msgs_def)
  have p: "\<not> (fstate env = ForwarderStateClosed \<and> closeWhenChange h)"
    using cycle_Running [OF assms(2)] by simp
  obtain f' w1 pre where c: "cycle env h messages f w = dispatch env h msgs rest f' w1"
    and w1: "trace w1 = trace w @ pre" "filter isForward pre = []"
      "buffer w1 = buffer w" "sent w1 = sent w" "filter isWrite pre = []"
    using cycle_dispatch [OF d p, of f w] unfolding rest_def by blast
  have ok: "forward env = None" "encoded env 0 (length msgs) = length msgs" "flush env = None"
    using dispatch_Running [of env h msgs rest f' w1] assms(2) c by simp_all
  note r = dispatch_ok_result [OF ok, of h rest f' w1]
  have s: "sent (worldOf (cycle env h messages f w))
             = sent w @ map (\<lambda>q. (Some q, Some (reply env q))) (take (length messages) rs)"
  proof -
    have "sent (worldOf (cycle env h messages f w))
            = sent w1 @ buffer w1 @ map (\<lambda>m. (req m, map_option (reply env) (req m))) msgs"
      unfolding c by (rule r(4))
    also have "\<dots> = sent w @ map (\<lambda>q. (Some q, Some (reply env q))) (take (length messages) rs)"
      by (simp only: w1 assms(3) msgs_def map_map2_req append_Nil)
    finally show ?thesis .
  qed
  have b: "buffer (worldOf (cycle env h messages f w)) = []"
    unfolding c by (rule r(5))
  have t: "filter isForward (since w (worldOf (cycle env h messages f w))) = [EvForward f' msgs]"
    unfolding c since_def r(6) by (simp add: w1)
  have l: "length (take (length messages) rs) = length msgs"
    by (simp add: msgs_def min.commute)
  have e: "filter isWrite (since w (worldOf (cycle env h messages f w)))
             = map (\<lambda>m. EvEncode f' (Wait env m)) msgs @ [EvFlush]"
    unfolding c since_def r(6) by (simp add: w1 comp_def)
  show ?thesis
    using s b t l e unfolding c r(3) msgs_def [symmetric] by simp
qed

theorem responses_in_decode_order_witness:
  "decode (exEnv [1, 2, 3]) = Inr [1, 2, 3]
   \<and> statusOf (cycle (exEnv [1, 2, 3]) exHandler [exMsg, exMsg] 0 exWorld) = Running
   \<and> buffer exWorld = []
   \<and> sent (worldOf (cycle (exEnv [1, 2, 3]) exHandler [exMsg, exMsg] 0 exWorld))
       = [(Some 1, Some 101), (Some 2, Some 102)]
   \<and> filter isForward (since exWorld (worldOf (cycle (exEnv [1, 2, 3]) exHandler [exMsg, exMsg] 0 exWorld)))
       = [EvForward 0 [exMsg\<lparr>req := Some 1\<rparr>, exMsg\<lparr>req := Some 2\<rparr>]]"
proof -
  have d: "decode (exEnv [1, 2, 3]) = Inr [1, 2, 3]"
    by (simp add: exEnv_def)
  have r: "statusOf (cycle (exEnv [1, 2, 3]) exHandler [exMsg, exMsg] 0 exWorld) = Running"
    by code_simp
  have f: "forwarderOf (cycle (exEnv [1, 2, 3]) exHandler [exMsg, exMsg] 0 exWorld) = 0"
    by code_simp
  have b: "buffer exWorld = []"
    by (simp add: exWorld_def)
  show ?thesis
    using responses_in_decode_order [OF d r b] d r b
    unfolding f by (simp add: exEnv_def exMsg_def exWorld_def)
qed

subsection \<open>C8\<close>

text \<open>
  C8. \<open>NewHandler\<close> on a configuration whose cache type is none of the four supported
  kinds ends in the panic \<open>ErrNoSupportCacheType\<close>: no handler is returned, so there is
  none to call \<open>Handle\<close> on, and the world is the one before the call: the connection
  gauge has not been incremented and no collaborator has been called.
\<close>

theorem NewHandler_unsupported:
  "ccCacheType cc = CacheTypeOther k \<Longrightarrow>
   NewHandler cc client w = (Inl ErrNoSupportCacheType, w)"
  by (simp add: NewHandler_def)

theorem NewHandler_unsupported_witness:
  "ccCacheType (exConfig\<lparr>ccCacheType := CacheTypeOther ''etcd''\<rparr>) = CacheTypeOther ''etcd''
   \<and> NewHandler (exConfig\<lparr>ccCacheType := CacheTypeOther ''etcd''\<rparr>) 42 exWorld
       = (Inl ErrNoSupportCacheType, exWorld)"
  using NewHandler_unsupported [of "exConfig\<lparr>ccCacheType := CacheTypeOther ''etcd''\<rparr>" "''etcd''" 42 exWorld]
  by simp

subsection \<open>C9\<close>

text \<open>
  C9, as the claim has it, asks that every message of the batch be reset before the batch
  is used again. A run of one successful cycle on a batch of two slots, of which \<open>Decode\<close>
  fills the first: \<open>Reset\<close> is called once, and the batch the next cycle will use still has,
  in its second slot, the message the pool handed out, with its old payloads and end
  marker.
\<close>

theorem reset_every_message_counterexample:
  "statusOf (handle exStaleSupply [exEnv [1]] exHandler exWorld) = Running
   \<and> batchOf (handle exStaleSupply [exEnv [1]] exHandler exWorld)
       = [exMsg\<lparr>wgAttached := True\<rparr>, exStale\<lparr>wgAttached := True\<rparr>]
   \<and> length (filter isReset (trace (worldOf (handle exStaleSupply [exEnv [1]] exHandler exWorld)))) = 1
   \<and> Reset (exStale\<lparr>wgAttached := True\<rparr>) \<noteq> exStale\<lparr>wgAttached := True\<rparr>"
  by code_simp

text \<open>
  C9, as the code has it. In a cycle that runs to its end, \<open>Reset\<close> is called on the
  messages \<open>Decode\<close> filled, once each and in order, and on no other; the batch the
  allocator then keeps, or returns to the pool, is these messages reset, followed by the
  slots \<open>Decode\<close> did not fill, as they were. In a cycle that returns, \<open>Reset\<close> is not
  called at all and the batch goes to the pool, once, as the cycle left it.
\<close>

theorem reset_on_success_only:
  "(Decode env messages = Inr msgs \<and> statusOf (cycle env h messages f w) = Running \<longrightarrow>
      filter isReset (since w (worldOf (cycle env h messages f w)))
        = map EvReset (map (\<lambda>m. ResetSubs (MarkEnd (Wait env m))) msgs)
      \<and> (batchOf (cycle env h messages f w)
            = map (\<lambda>m. Reset (ResetSubs (MarkEnd (Wait env m)))) msgs @ drop (length msgs) messages
          \<and> filter isPutMsgs (since w (worldOf (cycle env h messages f w))) = []
          \<or> filter isPutMsgs (since w (worldOf (cycle env h messages f w)))
            = [EvPutMsgs (map (\<lambda>m. Reset (ResetSubs (MarkEnd (Wait env m)))) msgs
                          @ drop (length msgs) messages)]))
   \<and> (statusOf (cycle env' h messages f w) = Returned \<longrightarrow>
        filter isReset (since w (worldOf (cycle env' h messages f w))) = []
        \<and> filter isPutMsgs (since w (worldOf (cycle env' h messages f w)))
            = [EvPutMsgs (batchOf (cycle env' h messages f w))])"
proof (intro conjI impI; (elim conjE)?)
  assume d: "Decode env messages = Inr msgs"
    and run: "statusOf (cycle env h messages f w) = Running"
  let ?rest = "drop (length msgs) messages"
  let ?B = "map Reset (encodedBatch env msgs) @ ?rest"
  have p: "\<not> (fstate env = ForwarderStateClosed \<and> closeWhenChange h)"
    using cycle_Running [OF run] by simp
  obtain f' w1 pre where c: "cycle env h messages f w = dispatch env h msgs ?rest f' w1"
    and w1: "trace w1 = trace w @ pre" "filter isPutMsgs pre = []" "filter isReset pre = []"
    using cycle_dispatch [OF d p, of f w] by blast
  have ok: "forward env = None" "encoded env 0 (length msgs) = length msgs" "flush env = None"
    using dispatch_Running [of env h msgs ?rest f' w1] run c by simp_all
  note r = dispatch_ok_result [OF ok, of h ?rest f' w1]
  have eb: "encodedBatch env msgs = map (\<lambda>m. ResetSubs (MarkEnd (Wait env m))) msgs"
    by (rule encodedBatch_all [OF ok(2)])
  have B: "?B = map (\<lambda>m. Reset (ResetSubs (MarkEnd (Wait env m)))) msgs @ ?rest"
    by (simp add: eb comp_def)
  show "filter isReset (since w (worldOf (cycle env h messages f w)))
          = map EvReset (map (\<lambda>m. ResetSubs (MarkEnd (Wait env m))) msgs)"
    unfolding c since_def r(6) eb [symmetric] by (simp add: w1)
  have puts: "filter isPutMsgs (since w (worldOf (cycle env h messages f w)))
          = (if allocEvents ?B (int (length msgs)) = [] then [] else [EvPutMsgs ?B])"
    unfolding c since_def r(6) by (simp add: w1 filter_isPutMsgs_allocEvents)
  show "batchOf (cycle env h messages f w)
            = map (\<lambda>m. Reset (ResetSubs (MarkEnd (Wait env m)))) msgs @ ?rest
          \<and> filter isPutMsgs (since w (worldOf (cycle env h messages f w))) = []
          \<or> filter isPutMsgs (since w (worldOf (cycle env h messages f w)))
            = [EvPutMsgs (map (\<lambda>m. Reset (ResetSubs (MarkEnd (Wait env m)))) msgs @ ?rest)]"
  proof (cases "allocEvents ?B (int (length msgs)) = []")
    case True
    have "batchOf (cycle env h messages f w) = ?B"
      unfolding c by (rule batchOf_dispatch_ok [OF ok True])
    then show ?thesis
      using puts True B by simp
  next
    case False
    then show ?thesis
      using puts B by simp
  qed
next
  assume "statusOf (cycle env' h messages f w) = Returned"
  from cycle_Returned_puts [OF this]
  show "filter isReset (since w (worldOf (cycle env' h messages f w))) = []"
    and "filter isPutMsgs (since w (worldOf (cycle env' h messages f w)))
            = [EvPutMsgs (batchOf (cycle env' h messages f w))]"
    by simp_all
qed

theorem reset_on_success_only_witness:
  "Decode (exEnv [1]) [exMsg, exStale] = Inr [exMsg\<lparr>req := Some 1\<rparr>]
   \<and> statusOf (cycle (exEnv [1]) exHandler [exMsg, exStale] 0 exWorld) = Running
   \<and> statusOf (cycle ((exEnv [1])\<lparr>flush := Some EOF\<rparr>) exHandler [exMsg, exStale] 0 exWorld) = Returned
   \<and> filter isReset (since exWorld (worldOf (cycle (exEnv [1]) exHandler [exMsg, exStale] 0 exWorld)))
       = [EvReset (ResetSubs (MarkEnd (Wait (exEnv [1]) (exMsg\<lparr>req := Some 1\<rparr>))))]
   \<and> filter isReset (since exWorld
         (worldOf (cycle ((exEnv [1])\<lparr>flush := Some EOF\<rparr>) exHandler [exMsg, exStale] 0 exWorld))) = []"
proof -
  have d: "Decode (exEnv [1]) [exMsg, exStale] = Inr [exMsg\<lparr>req := Some 1\<rparr>]"
    by (simp add: Decode_def exEnv_def)
  have r: "statusOf (cycle (exEnv [1]) exHandler [exMsg, exStale] 0 exWorld) = Running"
    by code_simp
  have r': "statusOf (cycle ((exEnv [1])\<lparr>flush := Some EOF\<rparr>) exHandler [exMsg, exStale] 0 exWorld) = Returned"
    by code_simp
  show ?thesis
    using reset_on_success_only [of "exEnv [1]" "[exMsg, exStale]" "[exMsg\<lparr>req := Some 1\<rparr>]"
            exHandler 0 exWorld "(exEnv [1])\<lparr>flush := Some EOF\<rparr>"] d r r'
    by simp
qed

subsection \<open>C10\<close>

text \<open>
  C10. A handler that is still opening. When \<open>Decode\<close> succeeded, the forwarder answers
  \<open>Closed\<close> and the close-on-change policy is set, the cycle returns with the handler
  closed, the raw connection closed, and no error recorded. Every other cycle that
  returns also closes handler and connection, and records an error.
\<close>

theorem topology_closed_nil_error:
  assumes "closed h = handlerOpening"
  shows "(Decode env messages = Inr msgs \<and> fstate env = ForwarderStateClosed \<and> closeWhenChange h \<longrightarrow>
            statusOf (cycle env h messages f w) = Returned
            \<and> closed (handlerOf (cycle env h messages f w)) = handlerClosed
            \<and> err (handlerOf (cycle env h messages f w)) = None
            \<and> connCloses (worldOf (cycle env h messages f w)) = Suc (connCloses w))
       \<and> (statusOf (cycle env' h messages f w) = Returned
            \<and> (isl (Decode env' messages) \<or> fstate env' \<noteq> ForwarderStateClosed \<or> \<not> closeWhenChange h) \<longrightarrow>
            closed (handlerOf (cycle env' h messages f w)) = handlerClosed
            \<and> err (handlerOf (cycle env' h messages f w)) \<noteq> None
            \<and> connCloses (worldOf (cycle env' h messages f w)) = Suc (connCloses w))"
proof (intro conjI impI; (elim conjE)?)
  assume d: "Decode env messages = Inr msgs" and c: "fstate env = ForwarderStateClosed"
    and p: "closeWhenChange h"
  note r = cycle_closed_policy [OF d c p, of f w]
  show "statusOf (cycle env h messages f w) = Returned"
    unfolding r by (simp add: statusOf_def split_beta)
  show "closed (handlerOf (cycle env h messages f w)) = handlerClosed"
    unfolding r using assms by (simp add: handlerOf_def deferHandle_eq)
  show "err (handlerOf (cycle env h messages f w)) = None"
    unfolding r using assms by (simp add: handlerOf_def deferHandle_eq)
  show "connCloses (worldOf (cycle env h messages f w)) = Suc (connCloses w)"
    unfolding r using assms by (simp add: worldOf_def deferHandle_eq emit_def)
next
  assume ret: "statusOf (cycle env' h messages f w) = Returned"
    and other: "isl (Decode env' messages) \<or> fstate env' \<noteq> ForwarderStateClosed \<or> \<not> closeWhenChange h"
  have "\<exists>e b f' w1. cycle env' h messages f w = exitWith b (Some e) f' h w1
          \<and> connCloses w1 = connCloses w"
  proof (cases "Decode env' messages")
    case (Inl e)
    then show ?thesis
      by (auto simp: cycle_decode_err emit_def intro!: exI)
  next
    case (Inr ms)
    then have p: "\<not> (fstate env' = ForwarderStateClosed \<and> closeWhenChange h)"
      using other by auto
    obtain f' w1 pre where c: "cycle env' h messages f w = dispatch env' h ms (drop (length ms) messages) f' w1"
      and w1: "connCloses w1 = connCloses w"
      using cycle_dispatch [OF Inr p, of f w] by blast
    show ?thesis
    proof (cases rule: dispatch_cases [where env = env' and msgs = ms])
      case (forward_err e)
      then show ?thesis
        unfolding c by (auto simp: dispatch_forward_err emit_def w1 intro!: exI)
    next
      case encode_err
      obtain e where "encodeErr env' (encoded env' 0 (length ms)) = Some e"
        using encoded_err [of env' 0 "length ms"] encode_err by auto
      then show ?thesis
        unfolding c using encode_err
        by (auto simp: dispatch_encode_err Flush_def afterEncode_def emit_def w1
              split: option.splits intro!: exI)
    next
      case (flush_err e)
      then show ?thesis
        unfolding c by (auto simp: dispatch_flush_err afterEncode_def emit_def w1 intro!: exI)
    next
      case ok
      then show ?thesis
        using ret unfolding c by (simp add: dispatch_ok statusOf_def split_beta)
    qed
  qed
  then obtain e b f' w1 where x: "cycle env' h messages f w = exitWith b (Some e) f' h w1"
    and w1: "connCloses w1 = connCloses w"
    by blast
  show "closed (handlerOf (cycle env' h messages f w)) = handlerClosed"
    unfolding x using assms by (simp add: handlerOf_exitWith)
  show "err (handlerOf (cycle env' h messages f w)) \<noteq> None"
    unfolding x using assms by (simp add: handlerOf_exitWith)
  show "connCloses (worldOf (cycle env' h messages f w)) = Suc (connCloses w)"
    unfolding x using assms by (simp add: worldOf_exitWith w1)
qed

theorem topology_closed_nil_error_witness:
  "closed (exHandler\<lparr>closeWhenChange := True\<rparr>) = handlerOpening
   \<and> Decode ((exEnv [1])\<lparr>fstate := ForwarderStateClosed\<rparr>) [exMsg, exMsg] = Inr [exMsg\<lparr>req := Some 1\<rparr>]
   \<and> fstate ((exEnv [1])\<lparr>fstate := ForwarderStateClosed\<rparr>) = ForwarderStateClosed
   \<and> closeWhenChange (exHandler\<lparr>closeWhenChange := True\<rparr>)
   \<and> err (handlerOf (cycle ((exEnv [1])\<lparr>fstate := ForwarderStateClosed\<rparr>)
             (exHandler\<lparr>closeWhenChange := True\<rparr>) [exMsg, exMsg] 0 exWorld)) = None
   \<and> closed (handlerOf (cycle ((exEnv [1])\<lparr>fstate := ForwarderStateClosed\<rparr>)
             (exHandler\<lparr>closeWhenChange := True\<rparr>) [exMsg, exMsg] 0 exWorld)) = handlerClosed
   \<and> statusOf (cycle ((exEnv [1])\<lparr>decode := Inl EOF\<rparr>)
             (exHandler\<lparr>closeWhenChange := True\<rparr>) [exMsg, exMsg] 0 exWorld) = Returned
   \<and> isl (Decode ((exEnv [1])\<lparr>decode := Inl EOF\<rparr>) [exMsg, exMsg])
   \<and> err (handlerOf (cycle ((exEnv [1])\<lparr>decode := Inl EOF\<rparr>)
             (exHandler\<lparr>closeWhenChange := True\<rparr>) [exMsg, exMsg] 0 exWorld)) \<noteq> None"
proof -
  have r: "statusOf (cycle ((exEnv [1])\<lparr>decode := Inl EOF\<rparr>)
             (exHandler\<lparr>closeWhenChange := True\<rparr>) [exMsg, exMsg] 0 exWorld) = Returned"
    by (simp add: cycle_decode_err Decode_def exEnv_def)
  show ?thesis
    using r topology_closed_nil_error [of "exHandler\<lparr>closeWhenChange := True\<rparr>"
            "(exEnv [1])\<lparr>fstate := ForwarderStateClosed\<rparr>" "[exMsg, exMsg]"
            "[exMsg\<lparr>req := Some 1\<rparr>]" 0 exWorld "(exEnv [1])\<lparr>decode := Inl EOF\<rparr>"]
    by (simp add: Decode_def exEnv_def exHandler_def exMsg_def handlerOpening_def)
qed

end
